theory Spec2Isabelle
  imports Complex_Main "HOL-Library.Word" "HOL-Library.Char_ord" "HOL-Library.List_Lexorder"
begin

section \<open>Python strings and paths\<close>

text \<open>
  Python \<open>str\<close> values are modelled as \<open>string\<close> (lists of characters) and compared
  lexicographically, character by character, as Python compares them. File contents are
  lists of bytes.
\<close>

type_synonym path = string
type_synonym byte = "8 word"

text \<open>\<open>s.startswith(p)\<close>, \<open>s.endswith('/')\<close>, \<open>s.rstrip('/')\<close> and \<open>sub in s\<close>.\<close>

definition startswith :: "string \<Rightarrow> string \<Rightarrow> bool" where
  "startswith s p = (take (length p) s = p)"

definition endswith_slash :: "string \<Rightarrow> bool" where
  "endswith_slash s = (s \<noteq> [] \<and> last s = CHR ''/'')"

definition rstrip_slash :: "string \<Rightarrow> string" where
  "rstrip_slash s = rev (dropWhile (\<lambda>c. c = CHR ''/'') (rev s))"

fun contains :: "string \<Rightarrow> string \<Rightarrow> bool" where
  "contains sub [] = (sub = [])"
| "contains sub (c # cs) = (startswith (c # cs) sub \<or> contains sub cs)"

text \<open>\<open>s.replace(old, new, 1)\<close>: the first occurrence of \<open>old\<close> is replaced.\<close>

fun replace_first :: "string \<Rightarrow> string \<Rightarrow> string \<Rightarrow> string" where
  "replace_first old new [] = (if old = [] then new else [])"
| "replace_first old new (c # cs) =
     (if startswith (c # cs) old then new @ drop (length old) (c # cs)
      else c # replace_first old new cs)"

text \<open>\<open>posixpath.join(a, b)\<close> with two arguments.\<close>

definition os_path_join :: "path \<Rightarrow> path \<Rightarrow> path" where
  "os_path_join a b =
     (if startswith b ''/'' then b
      else if a = [] \<or> endswith_slash a then a @ b
      else a @ ''/'' @ b)"

text \<open>
  \<open>posixpath.dirname(p)\<close>: everything up to the last separator, with trailing separators
  removed unless the head consists of separators only.
\<close>

definition os_path_dirname :: "path \<Rightarrow> path" where
  "os_path_dirname p =
     (let tail = rev (takeWhile (\<lambda>c. c \<noteq> CHR ''/'') (rev p));
          head = take (length p - length tail) p
      in if head \<noteq> [] \<and> \<not> (\<forall>c \<in> set head. c = CHR ''/'') then rstrip_slash head else head)"

text \<open>Decimal rendering of a natural number, and the format specification \<open>03d\<close>.\<close>

definition digit_char :: "nat \<Rightarrow> char" where
  "digit_char d = char_of (48 + d)"

fun dec_digits :: "nat \<Rightarrow> string" where
  "dec_digits n =
     (if n < 10 then [digit_char n] else dec_digits (n div 10) @ [digit_char (n mod 10)])"

declare dec_digits.simps [simp del]

definition zfill :: "nat \<Rightarrow> string \<Rightarrow> string" where
  "zfill w s = replicate (w - length s) (CHR ''0'') @ s"

definition format_03d :: "int \<Rightarrow> string" where
  "format_03d k =
     (if k < 0 then CHR ''-'' # zfill 2 (dec_digits (nat (- k))) else zfill 3 (dec_digits (nat k)))"

text \<open>Decimal digits, and the number a string of decimal digits denotes.\<close>

definition is_digit :: "char \<Rightarrow> bool" where
  "is_digit c = (CHR ''0'' \<le> c \<and> c \<le> CHR ''9'')"

definition digits_value :: "string \<Rightarrow> int" where
  "digits_value s = foldl (\<lambda>a c. 10 * a + (of_char c - 48)) 0 s"

section \<open>The world: file system, network, log\<close>

text \<open>
  Every exception of the source is a value. The world holds the regular files, the trace of
  the input/output operations performed so far, and the warnings, errors and the few progress
  messages the programs log (banners, summaries and messages carrying formatted sizes are
  left out). What the outside decides (which writes fail, what the remote answers, what a
  directory walk lists) is the environment \<open>env\<close>, which the programs only query. The
  environment also carries the two library functions the programs are not modelled down
  to: \<open>urljoin\<close>, and \<open>int\<close> on a string, with \<open>None\<close> for its \<open>ValueError\<close>.
  Directories are known through the environment only: whether a path is one, and the size
  the system reports for it.
\<close>

datatype exn = OSError | ZeroDivisionError | ValueError | ConnectionError | HTTPError

datatype io_event =
    Stat path | OpenRead path | WriteFile path | Remove path | Walk path | Makedirs path
  | Head string | Get string

datatype level = INFO | WARNING | ERROR

datatype msg =
    FailedToSplit path exn
  | ErrorProcessing path exn
  | DirectoryDoesNotExist path
  | InvalidMaxSize string
  | InvalidChunkSize string
  | ChunkSizeMustBeLess int int
  | ErrorFetchingDirectory string exn
  | SkippingExists path
  | Downloading string
  | FailedToDownload string exn
  | MaximumDepthReached string
  | Exploring nat string
  | NoLinksFound string
  | SkippingDirectoryFiltered string

record world =
  files :: "path \<rightharpoonup> byte list"
  trace :: "io_event list"
  logged :: "(level \<times> msg) list"

text \<open>
  A write to a path either succeeds, or fails when the file is opened (nothing changes), or
  fails after some bytes have reached the file (a partial file remains).
\<close>

datatype write_outcome = WriteOk | OpenFails | WriteFailsAfter nat

datatype header = Absent | Num int | Garbage

record get_response =
  status :: nat
  content_length :: header
  chunks :: "byte list list"
  stream_fails :: bool

record env =
  write_fault :: "path \<Rightarrow> write_outcome"
  remove_fails :: "path \<Rightarrow> bool"
  read_fails :: "path \<Rightarrow> bool"
  makedirs_fails :: "path \<Rightarrow> bool"
  is_dir :: "path \<Rightarrow> bool"
  dir_size :: "path \<Rightarrow> int"
  walk :: "path \<Rightarrow> (path \<times> string list) list"
  http_head :: "string \<Rightarrow> exn + header"
  http_get :: "string \<Rightarrow> exn + get_response"
  http_page :: "string \<Rightarrow> exn + string option list"
  urljoin :: "string \<Rightarrow> string \<Rightarrow> string"
  int_of_str :: "string \<Rightarrow> int option"

definition emit :: "io_event \<Rightarrow> world \<Rightarrow> world" where
  "emit e w = w\<lparr>trace := trace w @ [e]\<rparr>"

definition logger :: "level \<Rightarrow> msg \<Rightarrow> world \<Rightarrow> world" where
  "logger l m w = w\<lparr>logged := logged w @ [(l, m)]\<rparr>"

text \<open>\<open>os.path.exists\<close>, \<open>os.path.getsize\<close>, \<open>open(p, 'rb')\<close>, \<open>f.read(n)\<close>, writing a
  whole file, \<open>os.remove\<close> and \<open>os.makedirs(p, exist_ok=True)\<close>.\<close>

definition os_path_exists :: "env \<Rightarrow> world \<Rightarrow> path \<Rightarrow> bool \<times> world" where
  "os_path_exists en w p = (files w p \<noteq> None \<or> is_dir en p, emit (Stat p) w)"

definition os_path_getsize :: "env \<Rightarrow> world \<Rightarrow> path \<Rightarrow> (exn + int) \<times> world" where
  "os_path_getsize en w p =
     (case files w p of
        None \<Rightarrow> (if is_dir en p then Inr (dir_size en p) else Inl OSError, emit (Stat p) w)
      | Some d \<Rightarrow> (Inr (int (length d)), emit (Stat p) w))"

definition open_rb :: "env \<Rightarrow> world \<Rightarrow> path \<Rightarrow> (exn + unit) \<times> world" where
  "open_rb en w p =
     (if files w p = None \<or> read_fails en p then (Inl OSError, emit (OpenRead p) w)
      else (Inr (), emit (OpenRead p) w))"

text \<open>
  Reading from the open source file at offset \<open>pos\<close>: at most \<open>n\<close> bytes, everything up to
  the end of the file when \<open>n\<close> is \<open>-1\<close>, and \<open>ValueError\<close> for a length below \<open>-1\<close>. The open
  file is the file at that path.
\<close>

definition file_read :: "world \<Rightarrow> path \<Rightarrow> nat \<Rightarrow> int \<Rightarrow> exn + byte list" where
  "file_read w p pos n =
     (case files w p of
        None \<Rightarrow> Inl OSError
      | Some d \<Rightarrow>
          if n < - 1 then Inl ValueError
          else Inr (if n = - 1 then drop pos d else take (nat n) (drop pos d)))"

definition file_write :: "env \<Rightarrow> world \<Rightarrow> path \<Rightarrow> byte list \<Rightarrow> (exn + unit) \<times> world" where
  "file_write en w p d =
     (case write_fault en p of
        OpenFails \<Rightarrow> (Inl OSError, emit (WriteFile p) w)
      | WriteFailsAfter k \<Rightarrow>
          if k < length d then (Inl OSError, emit (WriteFile p) (w\<lparr>files := (files w)(p \<mapsto> take k d)\<rparr>))
          else (Inr (), emit (WriteFile p) (w\<lparr>files := (files w)(p \<mapsto> d)\<rparr>))
      | WriteOk \<Rightarrow> (Inr (), emit (WriteFile p) (w\<lparr>files := (files w)(p \<mapsto> d)\<rparr>)))"

definition os_remove :: "env \<Rightarrow> world \<Rightarrow> path \<Rightarrow> (exn + unit) \<times> world" where
  "os_remove en w p =
     (if files w p = None \<or> remove_fails en p then (Inl OSError, emit (Remove p) w)
      else (Inr (), emit (Remove p) (w\<lparr>files := (files w)(p := None)\<rparr>)))"

definition os_makedirs :: "env \<Rightarrow> world \<Rightarrow> path \<Rightarrow> (exn + unit) \<times> world" where
  "os_makedirs en w p =
     (if p = [] \<or> makedirs_fails en p then (Inl OSError, emit (Makedirs p) w)
      else (Inr (), emit (Makedirs p) w))"

section \<open>split_large_files.py\<close>

record splitter =
  base_directory :: path
  max_size_bytes :: int
  chunk_size_bytes :: int
  files_scanned :: nat
  files_split :: nat
  files_failed :: nat

definition FileSplitter_init :: "path \<Rightarrow> int \<Rightarrow> int \<Rightarrow> splitter" where
  "FileSplitter_init base max_size_mb chunk_size_mb =
     \<lparr>base_directory = base,
      max_size_bytes = max_size_mb * 1024 * 1024,
      chunk_size_bytes = chunk_size_mb * 1024 * 1024,
      files_scanned = 0, files_split = 0, files_failed = 0\<rparr>"

text \<open>\<open>(file_size + chunk_size_bytes - 1) // chunk_size_bytes\<close>; Python raises on a zero
  divisor, and its floor division is \<open>div\<close> on \<open>int\<close>.\<close>

definition num_chunks_of :: "int \<Rightarrow> int \<Rightarrow> exn + int" where
  "num_chunks_of file_size c =
     (if c = 0 then Inl ZeroDivisionError else Inr ((file_size + c - 1) div c))"

definition chunk_filename :: "path \<Rightarrow> int \<Rightarrow> path" where
  "chunk_filename file_path chunk_num = file_path @ ''.part'' @ format_03d chunk_num"

text \<open>The loop over \<open>range(1, num_chunks + 1)\<close>; \<open>pos\<close> is the offset of the open source file.\<close>

fun split_loop :: "env \<Rightarrow> int \<Rightarrow> path \<Rightarrow> int list \<Rightarrow> nat \<Rightarrow> world \<Rightarrow> (exn + unit) \<times> world" where
  "split_loop en c file_path [] pos w = (Inr (), w)"
| "split_loop en c file_path (chunk_num # rest) pos w =
     (case file_read w file_path pos c of
        Inl e \<Rightarrow> (Inl e, w)
      | Inr chunk_data \<Rightarrow>
          (case file_write en w (chunk_filename file_path chunk_num) chunk_data of
             (Inl e, w1) \<Rightarrow> (Inl e, w1)
           | (Inr u, w1) \<Rightarrow> split_loop en c file_path rest (pos + length chunk_data) w1))"

text \<open>The body of the \<open>try\<close> block of \<open>split_file\<close>.\<close>

definition split_file_try :: "env \<Rightarrow> splitter \<Rightarrow> world \<Rightarrow> path \<Rightarrow> (exn + unit) \<times> world" where
  "split_file_try en sp w file_path =
     (case os_path_getsize en w file_path of
        (Inl e, w1) \<Rightarrow> (Inl e, w1)
      | (Inr file_size, w1) \<Rightarrow>
          (case num_chunks_of file_size (chunk_size_bytes sp) of
             Inl e \<Rightarrow> (Inl e, w1)
           | Inr num_chunks \<Rightarrow>
               (case open_rb en w1 file_path of
                  (Inl e, w2) \<Rightarrow> (Inl e, w2)
                | (Inr u, w2) \<Rightarrow>
                    (case split_loop en (chunk_size_bytes sp) file_path [1..num_chunks] 0 w2 of
                       (Inl e, w3) \<Rightarrow> (Inl e, w3)
                     | (Inr u, w3) \<Rightarrow> os_remove en w3 file_path))))"

definition split_file :: "env \<Rightarrow> splitter \<Rightarrow> world \<Rightarrow> path \<Rightarrow> bool \<times> splitter \<times> world" where
  "split_file en sp w file_path =
     (case split_file_try en sp w file_path of
        (Inr u, w') \<Rightarrow> (True, sp\<lparr>files_split := files_split sp + 1\<rparr>, w')
      | (Inl e, w') \<Rightarrow>
          (False, sp\<lparr>files_failed := files_failed sp + 1\<rparr>,
           logger ERROR (FailedToSplit file_path e) w'))"

text \<open>
  The body of the inner loop of \<open>scan_and_split\<close>, for one file name of one directory of the
  walk. \<open>split_file\<close> catches its own exceptions, so the handler here sees those of
  \<open>os.path.getsize\<close> only.
\<close>

definition scan_file :: "env \<Rightarrow> path \<Rightarrow> string \<Rightarrow> splitter \<times> world \<Rightarrow> splitter \<times> world" where
  "scan_file en root_dir filename st =
     (case st of (sp, w) \<Rightarrow>
        if contains ''.part'' filename then (sp, w)
        else
          (let file_path = os_path_join root_dir filename;
               sp1 = sp\<lparr>files_scanned := files_scanned sp + 1\<rparr>
           in case os_path_getsize en w file_path of
                (Inl e, w1) \<Rightarrow>
                  (sp1\<lparr>files_failed := files_failed sp1 + 1\<rparr>,
                   logger ERROR (ErrorProcessing file_path e) w1)
              | (Inr file_size, w1) \<Rightarrow>
                  if file_size > max_size_bytes sp1
                  then snd (split_file en sp1 w1 file_path)
                  else (sp1, w1)))"

text \<open>
  \<open>os.walk\<close> lists each directory when it reaches it. The chunk files a split creates are
  siblings of the file being split, in a directory already listed, so the walk is the list of
  \<open>(root, files)\<close> pairs the environment gives for the base directory.
\<close>

definition scan_and_split :: "env \<Rightarrow> splitter \<Rightarrow> world \<Rightarrow> splitter \<times> world" where
  "scan_and_split en sp w =
     (case os_path_exists en w (base_directory sp) of
        (False, w1) \<Rightarrow> (sp, logger ERROR (DirectoryDoesNotExist (base_directory sp)) w1)
      | (True, w1) \<Rightarrow>
          fold (\<lambda>(root_dir, filenames) st. fold (scan_file en root_dir) filenames st)
               (walk en (base_directory sp))
               (sp, emit (Walk (base_directory sp)) w1))"

text \<open>
  \<open>main\<close>: \<open>sys.exit(1)\<close> is the result \<open>Exit 1\<close>, a normal return carries the splitter
  with its counters. An interrupt from the keyboard is not modelled.
\<close>

datatype exit = Exit int | Finished splitter

definition main :: "env \<Rightarrow> string list \<Rightarrow> world \<Rightarrow> exit \<times> world" where
  "main en argv w =
     (let BASE_DIRECTORY = (if length argv > 1 then argv ! 1 else ''ubuntu_ports_downloads'')
      in case (if length argv > 2 then int_of_str en (argv ! 2) else Some 90) of
           None \<Rightarrow> (Exit 1, logger ERROR (InvalidMaxSize (argv ! 2)) w)
         | Some MAX_SIZE_MB \<Rightarrow>
             (case (if length argv > 3 then int_of_str en (argv ! 3) else Some 85) of
                None \<Rightarrow> (Exit 1, logger ERROR (InvalidChunkSize (argv ! 3)) w)
              | Some CHUNK_SIZE_MB \<Rightarrow>
                  if CHUNK_SIZE_MB \<ge> MAX_SIZE_MB
                  then (Exit 1, logger ERROR (ChunkSizeMustBeLess CHUNK_SIZE_MB MAX_SIZE_MB) w)
                  else (case scan_and_split en
                               (FileSplitter_init BASE_DIRECTORY MAX_SIZE_MB CHUNK_SIZE_MB) w of
                          (sp, w') \<Rightarrow> (Finished sp, w'))))"


section \<open>download_ubuntu_ports.py\<close>

record downloader =
  base_url :: string
  output_dir :: path
  start_dir :: "string option"
  end_dir :: "string option"
  downloaded_count :: nat
  failed_count :: nat
  skipped_count :: nat

definition UbuntuPortsDownloader_init ::
    "string \<Rightarrow> path \<Rightarrow> string option \<Rightarrow> string option \<Rightarrow> downloader" where
  "UbuntuPortsDownloader_init url out sd ed =
     \<lparr>base_url = rstrip_slash url, output_dir = out, start_dir = sd, end_dir = ed,
      downloaded_count = 0, failed_count = 0, skipped_count = 0\<rparr>"

text \<open>
  \<open>get_directory_listing\<close>. The environment gives, for a URL, the \<open>href\<close> attribute of every
  anchor of the page (\<open>None\<close> for an anchor without one), or the exception raised by the
  request, by the status check or by the parser.
\<close>

definition keep_link :: "string \<Rightarrow> bool" where
  "keep_link href =
     (href \<noteq> [] \<and> href \<notin> set [''../'', ''../'', ''/'', ''#'']
      \<and> \<not> startswith href ''http'' \<and> \<not> startswith href ''/'')"

definition get_directory_listing :: "env \<Rightarrow> world \<Rightarrow> string \<Rightarrow> string list \<times> world" where
  "get_directory_listing en w url =
     (case http_page en url of
        Inl e \<Rightarrow> ([], logger ERROR (ErrorFetchingDirectory url e) (emit (Get url) w))
      | Inr hrefs \<Rightarrow>
          (concat (map (\<lambda>h. case h of None \<Rightarrow> [] | Some href \<Rightarrow> if keep_link href then [href] else [])
                       hrefs),
           emit (Get url) w))"

definition is_directory :: "string \<Rightarrow> bool" where
  "is_directory link = endswith_slash link"

text \<open>
  \<open>should_process_directory\<close>. Python's \<open>not self.start_dir\<close> holds for \<open>None\<close> and for the
  empty string alike.
\<close>

definition truthy :: "string option \<Rightarrow> bool" where
  "truthy s = (s \<noteq> None \<and> s \<noteq> Some [])"

definition str_of :: "string option \<Rightarrow> string" where
  "str_of s = (case s of None \<Rightarrow> [] | Some x \<Rightarrow> x)"

definition should_process_directory :: "downloader \<Rightarrow> string \<Rightarrow> bool" where
  "should_process_directory dl dirname0 =
     (let dirname = rstrip_slash dirname0
      in if \<not> truthy (start_dir dl) \<and> \<not> truthy (end_dir dl) then True
         else if truthy (start_dir dl) \<and> \<not> truthy (end_dir dl)
           then dirname \<ge> rstrip_slash (str_of (start_dir dl))
         else if \<not> truthy (start_dir dl) \<and> truthy (end_dir dl)
           then dirname \<le> rstrip_slash (str_of (end_dir dl))
         else (let start_name = rstrip_slash (str_of (start_dir dl));
                   end_name = rstrip_slash (str_of (end_dir dl))
               in start_name \<le> dirname \<and> dirname \<le> end_name))"

text \<open>\<open>int(response.headers.get('content-length', 0))\<close>.\<close>

definition int_header :: "header \<Rightarrow> exn + int" where
  "int_header h = (case h of Absent \<Rightarrow> Inr 0 | Num n \<Rightarrow> Inr n | Garbage \<Rightarrow> Inl ValueError)"

text \<open>
  \<open>download_file\<close>, first part of the \<open>try\<close> block: the check of an existing local copy.
  \<open>Inr True\<close> is the early \<open>return True\<close> of the skip.
\<close>

definition already_complete :: "env \<Rightarrow> world \<Rightarrow> string \<Rightarrow> path \<Rightarrow> (exn + bool) \<times> world" where
  "already_complete en w url local_path =
     (case os_path_exists en w local_path of
        (False, w1) \<Rightarrow> (Inr False, w1)
      | (True, w1) \<Rightarrow>
          (case os_path_getsize en w1 local_path of
             (Inl e, w2) \<Rightarrow> (Inl e, w2)
           | (Inr local_size, w2) \<Rightarrow>
               (case http_head en url of
                  Inl e \<Rightarrow> (Inl e, emit (Head url) w2)
                | Inr h \<Rightarrow>
                    (case int_header h of
                       Inl e \<Rightarrow> (Inl e, emit (Head url) w2)
                     | Inr remote_size \<Rightarrow> (Inr (local_size = remote_size), emit (Head url) w2)))))"

text \<open>
  Second part: the streamed transfer. The body arrives as chunks, empty ones are skipped,
  and the stream may raise after the chunks it delivered.
\<close>

definition transfer :: "env \<Rightarrow> world \<Rightarrow> string \<Rightarrow> path \<Rightarrow> (exn + unit) \<times> world" where
  "transfer en w url local_path =
     (let w0 = logger INFO (Downloading url) w
      in case http_get en url of
           Inl e \<Rightarrow> (Inl e, emit (Get url) w0)
         | Inr response \<Rightarrow>
             (let w1 = emit (Get url) w0
              in if 400 \<le> status response \<and> status response < 600 then (Inl HTTPError, w1)
                 else
                   (case int_header (content_length response) of
                      Inl e \<Rightarrow> (Inl e, w1)
                    | Inr total_size \<Rightarrow>
                        (case os_makedirs en w1 (os_path_dirname local_path) of
                           (Inl e, w2) \<Rightarrow> (Inl e, w2)
                         | (Inr u, w2) \<Rightarrow>
                             (case file_write en w2 local_path
                                     (concat (filter (\<lambda>chunk. chunk \<noteq> []) (chunks response))) of
                                (Inl e, w3) \<Rightarrow> (Inl e, w3)
                              | (Inr u, w3) \<Rightarrow>
                                  if stream_fails response then (Inl ConnectionError, w3)
                                  else (Inr (), w3))))))"

definition download_file ::
    "env \<Rightarrow> downloader \<Rightarrow> world \<Rightarrow> string \<Rightarrow> path \<Rightarrow> bool \<times> downloader \<times> world" where
  "download_file en dl w url local_path =
     (case already_complete en w url local_path of
        (Inl e, w1) \<Rightarrow>
          (False, dl\<lparr>failed_count := failed_count dl + 1\<rparr>, logger ERROR (FailedToDownload url e) w1)
      | (Inr True, w1) \<Rightarrow>
          (True, dl\<lparr>skipped_count := skipped_count dl + 1\<rparr>, logger INFO (SkippingExists local_path) w1)
      | (Inr False, w1) \<Rightarrow>
          (case transfer en w1 url local_path of
             (Inl e, w2) \<Rightarrow>
               (False, dl\<lparr>failed_count := failed_count dl + 1\<rparr>,
                logger ERROR (FailedToDownload url e) w2)
           | (Inr u, w2) \<Rightarrow> (True, dl\<lparr>downloaded_count := downloaded_count dl + 1\<rparr>, w2)))"

text \<open>
  The path component of \<open>urllib.parse.urlparse(url)\<close>: leading control characters and spaces
  and all tabs and line breaks are removed, then the scheme, the network location, the
  fragment, the query and the parameters of the last segment are split off. The
  \<open>ValueError\<close> of a malformed bracketed host is not modelled.
\<close>

definition is_ascii_alpha :: "char \<Rightarrow> bool" where
  "is_ascii_alpha c = ((CHR ''a'' \<le> c \<and> c \<le> CHR ''z'') \<or> (CHR ''A'' \<le> c \<and> c \<le> CHR ''Z''))"

definition ascii_lower :: "char \<Rightarrow> char" where
  "ascii_lower c = (if CHR ''A'' \<le> c \<and> c \<le> CHR ''Z'' then char_of (of_char c + (32::nat)) else c)"

definition scheme_char :: "char \<Rightarrow> bool" where
  "scheme_char c = (is_ascii_alpha c \<or> is_digit c \<or> c \<in> set ''+-.'')"

definition uses_params :: "string list" where
  "uses_params = [[], ''ftp'', ''hdl'', ''prospero'', ''http'', ''imap'', ''https'', ''shttp'',
     ''rtsp'', ''rtsps'', ''rtspu'', ''sip'', ''sips'', ''mms'', ''sftp'', ''tel'']"

definition urlparse_path :: "string \<Rightarrow> string" where
  "urlparse_path url0 =
     (let url1 = filter (\<lambda>c. c \<notin> set [CHR 0x09, CHR 0x0A, CHR 0x0D])
                   (dropWhile (\<lambda>c. c \<le> CHR '' '') url0);
          pre = takeWhile (\<lambda>c. c \<noteq> CHR '':'') url1;
          has_scheme = (CHR '':'' \<in> set url1 \<and> pre \<noteq> [] \<and> is_ascii_alpha (hd pre)
                          \<and> list_all scheme_char pre);
          scheme = (if has_scheme then map ascii_lower pre else []);
          url2 = (if has_scheme then drop (length pre + 1) url1 else url1);
          url3 = (if startswith url2 ''//''
                  then dropWhile (\<lambda>c. c \<notin> set ''/?#'') (drop 2 url2) else url2);
          url4 = takeWhile (\<lambda>c. c \<noteq> CHR ''#'') url3;
          url5 = takeWhile (\<lambda>c. c \<noteq> CHR ''?'') url4;
          seg = rev (takeWhile (\<lambda>c. c \<noteq> CHR ''/'') (rev url5));
          head = take (length url5 - length seg) url5
      in if scheme \<in> set uses_params then head @ takeWhile (\<lambda>c. c \<noteq> CHR '';'') seg else url5)"

definition get_local_path :: "downloader \<Rightarrow> string \<Rightarrow> path" where
  "get_local_path dl url =
     (let relative_path = urlparse_path url;
          relative_path =
            (if startswith relative_path ''/ubuntu-ports/pool/universe/''
             then replace_first ''/ubuntu-ports/pool/universe/'' [] relative_path
             else relative_path)
      in os_path_join (output_dir dl) relative_path)"

text \<open>
  \<open>crawl_and_download\<close> and its loop over the links of one listing. \<open>urljoin\<close> is the
  library's resolution of a link against a base, taken from the environment; the pause
  after each download is not modelled. The recursion is total: a call at depth \<open>d\<close> only
  makes calls at depth \<open>d + 1\<close>, and none above depth 20.
\<close>

function crawl_and_download :: "env \<Rightarrow> string \<Rightarrow> nat \<Rightarrow> downloader \<times> world \<Rightarrow> downloader \<times> world"
  and crawl_links :: "env \<Rightarrow> string \<Rightarrow> nat \<Rightarrow> string list \<Rightarrow> downloader \<times> world \<Rightarrow> downloader \<times> world"
where
  "crawl_and_download en url depth (dl, w) =
     (if depth > 20 then (dl, logger WARNING (MaximumDepthReached url) w)
      else
        (let r = get_directory_listing en (logger INFO (Exploring depth url) w) url
         in if fst r = [] then (dl, logger WARNING (NoLinksFound url) (snd r))
            else crawl_links en url depth (fst r) (dl, snd r)))"
| "crawl_links en url depth [] (dl, w) = (dl, w)"
| "crawl_links en url depth (link # rest) (dl, w) =
     (let full_url = urljoin en (url @ ''/'') link
      in if is_directory link then
           (if depth = 0 \<and> \<not> should_process_directory dl link
            then crawl_links en url depth rest (dl, logger INFO (SkippingDirectoryFiltered link) w)
            else crawl_links en url depth rest (crawl_and_download en full_url (depth + 1) (dl, w)))
         else
           (let r = download_file en dl w full_url (get_local_path dl full_url)
            in crawl_links en url depth rest (fst (snd r), snd (snd r))))"
  by pat_completeness auto
termination
  by (relation "inv_image (less_than <*lex*> less_than)
        (\<lambda>x. case x of
           Inl (en, url, depth, st) \<Rightarrow> (2 * (21 - depth), 0)
         | Inr (en, url, depth, links, st) \<Rightarrow> (2 * (20 - depth) + 1, length links))")
     auto

definition start :: "env \<Rightarrow> downloader \<Rightarrow> world \<Rightarrow> downloader \<times> world" where
  "start en dl w = crawl_and_download en (base_url dl) 0 (dl, w)"

section \<open>Notions of the specification\<close>

text \<open>The number of chunks the specification promises: the ceiling of size over chunk size.\<close>

definition expected_chunks :: "nat \<Rightarrow> int \<Rightarrow> int" where
  "expected_chunks s c = \<lceil>real s / real_of_int c\<rceil>"

text \<open>Concatenating the contents of the chunk files \<open>1..n\<close> of a source path, in order.\<close>

definition concat_chunks :: "world \<Rightarrow> path \<Rightarrow> int \<Rightarrow> byte list" where
  "concat_chunks w file_path n =
     concat (map (\<lambda>k. case files w (chunk_filename file_path k) of None \<Rightarrow> [] | Some d \<Rightarrow> d) [1..n])"

text \<open>A write of \<open>d\<close> to \<open>q\<close> raises: the condition under which \<open>file_write\<close> fails.\<close>

definition write_fails :: "env \<Rightarrow> path \<Rightarrow> byte list \<Rightarrow> bool" where
  "write_fails en q d =
     (case write_fault en q of
        WriteOk \<Rightarrow> False | OpenFails \<Rightarrow> True | WriteFailsAfter j \<Rightarrow> j < length d)"

text \<open>
  No transport or input/output error occurs in a transfer: the request is answered, the
  status is not an error status, the declared length is a number or absent, the parent
  directory can be made, the body can be written and the stream does not break.
\<close>

definition transfer_ok :: "env \<Rightarrow> string \<Rightarrow> path \<Rightarrow> bool" where
  "transfer_ok en url local_path =
     (case http_get en url of
        Inl e \<Rightarrow> False
      | Inr response \<Rightarrow>
          \<not> (400 \<le> status response \<and> status response < 600)
          \<and> content_length response \<noteq> Garbage
          \<and> os_path_dirname local_path \<noteq> []
          \<and> \<not> makedirs_fails en (os_path_dirname local_path)
          \<and> \<not> write_fails en local_path (concat (chunks response))
          \<and> \<not> stream_fails response)"

text \<open>The depths at which the crawl explored a listing, read off the log.\<close>

definition explore_depths :: "world \<Rightarrow> nat list" where
  "explore_depths w =
     concat (map (\<lambda>(l, m). case m of Exploring d u \<Rightarrow> [d] | _ \<Rightarrow> []) (logged w))"

text \<open>
  The suffix of a chunk name as the specification words it: the sequence number in
  decimal digits, padded with zeros on the left to three digits, and not padded beyond.
\<close>

definition zero_padded_3 :: "int \<Rightarrow> string \<Rightarrow> bool" where
  "zero_padded_3 k s =
     (list_all is_digit s \<and> digits_value s = k \<and> 3 \<le> length s
      \<and> (3 < length s \<longrightarrow> hd s \<noteq> CHR ''0''))"

text \<open>
  The range test as the claim words it: the name, with its trailing separators stripped,
  lies between the bounds as they were given, and a bound that is \<open>None\<close> imposes nothing.
\<close>

definition in_range_as_claimed :: "downloader \<Rightarrow> string \<Rightarrow> bool" where
  "in_range_as_claimed dl d =
     ((case start_dir dl of None \<Rightarrow> True | Some a \<Rightarrow> a \<le> rstrip_slash d)
      \<and> (case end_dir dl of None \<Rightarrow> True | Some b \<Rightarrow> rstrip_slash d \<le> b))"

section \<open>Sample inputs\<close>

text \<open>
  An environment in which no file operation fails, every request to the remote raises,
  relative links are resolved by concatenation and numbers are read from plain decimal
  numerals; a world with one file of seven bytes; a splitter whose thresholds are a few
  bytes.
\<close>

definition plain_decimal :: "string \<Rightarrow> int option" where
  "plain_decimal s =
     (if s \<noteq> [] \<and> list_all is_digit s \<and> length s \<le> 4300 then Some (digits_value s) else None)"

definition quiet_env :: env where
  "quiet_env =
     \<lparr>write_fault = (\<lambda>p. WriteOk), remove_fails = (\<lambda>p. False), read_fails = (\<lambda>p. False),
      makedirs_fails = (\<lambda>p. False), is_dir = (\<lambda>p. False), dir_size = (\<lambda>p. 4096),
      walk = (\<lambda>p. []),
      http_head = (\<lambda>u. Inl ConnectionError), http_get = (\<lambda>u. Inl ConnectionError),
      http_page = (\<lambda>u. Inl ConnectionError), urljoin = (\<lambda>b l. b @ l),
      int_of_str = plain_decimal\<rparr>"

definition seven_bytes :: "byte list" where
  "seven_bytes = [1, 2, 3, 4, 5, 6, 7]"

definition sample_world :: world where
  "sample_world = \<lparr>files = [''d/a.bin'' \<mapsto> seven_bytes], trace = [], logged = []\<rparr>"

definition small_splitter :: splitter where
  "small_splitter =
     \<lparr>base_directory = ''d'', max_size_bytes = 6, chunk_size_bytes = 3,
      files_scanned = 0, files_split = 0, files_failed = 0\<rparr>"

text \<open>The same environment, except that the write of the second chunk of \<open>d/a.bin\<close> fails after
  one byte.\<close>

definition faulty_env :: env where
  "faulty_env =
     quiet_env\<lparr>write_fault :=
       (\<lambda>q. if q = ''d/a.bin.part002'' then WriteFailsAfter 1 else WriteOk)\<rparr>"

text \<open>
  Downloaders for the remote root of the specification's example, with and without the
  range \<open>h..m\<close>, with a start bound that carries a separator, with an empty end bound, and
  with an absolute output root; a remote that serves seven bytes in
  chunks, one of them empty, and declares their length; the same remote with a failing metadata request; and a
  remote on which every listing links to itself.
\<close>

definition host_downloader :: downloader where
  "host_downloader = UbuntuPortsDownloader_init ''https://host/pool/universe'' ''out/'' None None"

definition hm_downloader :: downloader where
  "hm_downloader =
     UbuntuPortsDownloader_init ''https://host/pool/universe'' ''out/'' (Some ''h'') (Some ''m'')"

definition from_h_downloader :: downloader where
  "from_h_downloader =
     UbuntuPortsDownloader_init ''https://host/pool/universe'' ''out/'' (Some ''h/'') None"

definition empty_end_downloader :: downloader where
  "empty_end_downloader =
     UbuntuPortsDownloader_init ''https://host/pool/universe'' ''out/'' None (Some [])"

definition pool_downloader :: downloader where
  "pool_downloader = UbuntuPortsDownloader_init ''https://host/pool/universe'' ''/pool'' None None"

definition empty_world :: world where
  "empty_world = \<lparr>files = Map.empty, trace = [], logged = []\<rparr>"

definition remote_env :: env where
  "remote_env =
     quiet_env\<lparr>http_head := (\<lambda>u. Inr (Num 7)),
               http_get := (\<lambda>u. Inr \<lparr>status = 200, content_length = Num 7,
                                      chunks = [[1, 2, 3, 4], [], [5, 6, 7]],
                                      stream_fails = False\<rparr>)\<rparr>"



definition cyclic_env :: env where
  "cyclic_env = quiet_env\<lparr>http_page := (\<lambda>u. Inr [Some ''./''])\<rparr>"

section \<open>Chunk names\<close>

lemma of_char_digit_char: "d < 10 \<Longrightarrow> of_char (digit_char d) = (48 + int d)"
proof -
  assume d: "d < 10"
  have "(of_char (digit_char d) :: nat) = (48 + d) mod 256" by (simp add: digit_char_def)
  also have "\<dots> = 48 + d" using d by simp
  finally have "int (of_char (digit_char d)) = int (48 + d)" by simp
  then show ?thesis by (simp add: of_nat_of_char)
qed

lemma digits_value_snoc:
  "digits_value (s @ [c]) = 10 * digits_value s + (of_char c - 48)"
  by (simp add: digits_value_def)

lemma digits_value_dec_digits: "digits_value (dec_digits n) = int n"
proof (induction n rule: dec_digits.induct)
  case (1 n)
  show ?case
  proof (cases "n < 10")
    case True
    then show ?thesis
      by (subst dec_digits.simps) (simp add: digits_value_def of_char_digit_char)
  next
    case False
    have m: "n mod 10 < 10" by simp
    have "digits_value (dec_digits n) = 10 * digits_value (dec_digits (n div 10)) + (of_char (digit_char (n mod 10)) - 48)"
      using False by (subst dec_digits.simps) (simp add: digits_value_snoc)
    also have "\<dots> = 10 * int (n div 10) + int (n mod 10)"
      using 1[OF False] by (simp add: of_char_digit_char[OF m])
    also have "\<dots> = int n" by presburger
    finally show ?thesis .
  qed
qed

lemma digits_value_zeros: "digits_value (replicate k (CHR ''0'') @ s) = digits_value s"
  by (induction k) (simp_all add: digits_value_def)

lemma digits_value_format_03d: "0 \<le> k \<Longrightarrow> digits_value (format_03d k) = k"
  by (simp add: format_03d_def zfill_def digits_value_zeros digits_value_dec_digits)

lemma format_03d_inj: "0 \<le> j \<Longrightarrow> 0 \<le> k \<Longrightarrow> format_03d j = format_03d k \<Longrightarrow> j = k"
  by (metis digits_value_format_03d)

lemma is_digit_digit_char: "d < 10 \<Longrightarrow> is_digit (digit_char d)"
proof -
  assume d: "d < 10"
  have "(of_char (digit_char d) :: nat) = (48 + d) mod 256" by (simp add: digit_char_def)
  also have "\<dots> = 48 + d" using d by simp
  finally show ?thesis using d by (simp add: is_digit_def less_eq_char_def)
qed

lemma digit_char_zero: "d < 10 \<Longrightarrow> digit_char d = CHR ''0'' \<Longrightarrow> d = 0"
proof -
  assume d: "d < 10" and e: "digit_char d = CHR ''0''"
  have "of_char (digit_char d) = (of_char (CHR ''0'') :: int)" using e by simp
  with d show ?thesis by (simp add: of_char_digit_char)
qed

lemma dec_digits_digits: "list_all is_digit (dec_digits n)"
proof (induction n rule: dec_digits.induct)
  case (1 n)
  show ?case
  proof (cases "n < 10")
    case True
    then show ?thesis by (subst dec_digits.simps) (simp add: is_digit_digit_char)
  next
    case False
    then show ?thesis using 1[OF False]
      by (subst dec_digits.simps) (simp add: is_digit_digit_char)
  qed
qed

lemma dec_digits_nonempty: "dec_digits n \<noteq> []"
  by (subst dec_digits.simps) simp

lemma dec_digits_no_leading_zero: "0 < n \<Longrightarrow> hd (dec_digits n) \<noteq> CHR ''0''"
proof (induction n rule: dec_digits.induct)
  case (1 n)
  show ?case
  proof (cases "n < 10")
    case True
    then show ?thesis using "1.prems" digit_char_zero[of n]
      by (subst dec_digits.simps) auto
  next
    case False
    then have "0 < n div 10" by simp
    from "1.IH"[OF False this] False show ?thesis
      by (subst dec_digits.simps) (simp add: dec_digits_nonempty)
  qed
qed

lemma dec_digits_short: "n < 10 \<Longrightarrow> length (dec_digits n) = 1"
  by (subst dec_digits.simps) simp

lemma zero_padded_format_03d:
  assumes "0 \<le> k"
  shows "zero_padded_3 k (format_03d k)"
proof -
  let ?s = "dec_digits (nat k)"
  have f: "format_03d k = replicate (3 - length ?s) (CHR ''0'') @ ?s"
    using assms by (simp add: format_03d_def zfill_def)
  have z: "is_digit (CHR ''0'')" by (simp add: is_digit_def)
  have a: "list_all is_digit (format_03d k)"
    using dec_digits_digits[of "nat k"] z by (auto simp: f list_all_iff)
  have b: "digits_value (format_03d k) = k" by (rule digits_value_format_03d[OF assms])
  have c: "3 \<le> length (format_03d k)" by (simp add: f)
  have d: "hd (format_03d k) \<noteq> CHR ''0''" if l: "3 < length (format_03d k)"
  proof -
    from l have long: "3 < length ?s" by (simp add: f split: if_splits)
    then have "\<not> nat k < 10" using dec_digits_short[of "nat k"] by auto
    then have "0 < nat k" by simp
    from dec_digits_no_leading_zero[OF this] long show ?thesis by (simp add: f)
  qed
  from a b c d show ?thesis by (simp add: zero_padded_3_def)
qed

lemma chunk_filename_inj: "0 \<le> j \<Longrightarrow> 0 \<le> k \<Longrightarrow> chunk_filename p j = chunk_filename p k \<Longrightarrow> j = k"
  by (simp add: chunk_filename_def format_03d_inj)

lemma chunk_filename_neq: "chunk_filename p k \<noteq> p"
  by (simp add: chunk_filename_def)

lemma distinct_chunk_filenames: "distinct (map (chunk_filename p) [1..n])"
proof -
  have "inj_on (chunk_filename p) {1..n}"
  proof (rule inj_onI)
    fix x y assume "x \<in> {1..n}" "y \<in> {1..n}" "chunk_filename p x = chunk_filename p y"
    then show "x = y" using chunk_filename_inj[of x y p] by simp
  qed
  then show ?thesis by (simp add: distinct_map)
qed

lemma concat_slices:
  "concat (map (\<lambda>i. take c (drop (i * c) xs)) [0..<n]) = take (n * c) xs"
proof (induction n)
  case 0
  show ?case by simp
next
  case (Suc n)
  have "take (n * c) xs @ take c (drop (n * c) xs) = take (n * c + c) xs"
    by (simp add: take_add)
  with Suc show ?case by (simp add: add.commute)
qed

section \<open>The splitting loop\<close>

lemma slice_shift:
  "take c (drop (pos + length (take c (drop pos xs)) + x) xs) = take c (drop (pos + c + x) xs)"
proof (cases "pos + c \<le> length xs")
  case True
  then show ?thesis by simp
next
  case False
  then have "drop (pos + min (length xs - pos) c + x) xs = []" "drop (pos + c + x) xs = []"
    by auto
  then show ?thesis by simp
qed

lemma file_write_ok:
  "file_write en w q d = (Inr u, w1) \<Longrightarrow>
     files w1 = (files w)(q \<mapsto> d) \<and> trace w1 = trace w @ [WriteFile q] \<and> logged w1 = logged w
     \<and> (write_fault en q = WriteOk \<or> (\<exists>k. write_fault en q = WriteFailsAfter k \<and> length d \<le> k))"
  by (auto simp: file_write_def emit_def split: write_outcome.splits if_splits)

lemma file_write_fail:
  "file_write en w q d = (Inl e, w1) \<Longrightarrow>
     (\<forall>r. r \<noteq> q \<longrightarrow> files w1 r = files w r) \<and> write_fault en q \<noteq> WriteOk"
  by (auto simp: file_write_def emit_def split: write_outcome.splits if_splits)

lemma split_loop_ok:
  assumes "split_loop en c p ks pos w = (Inr u, w')"
    and "files w p = Some xs" and "0 < c" and "distinct (map (chunk_filename p) ks)"
  shows "files w' p = Some xs
    \<and> (\<forall>q. q \<notin> chunk_filename p ` set ks \<longrightarrow> files w' q = files w q)
    \<and> (\<forall>i<length ks. files w' (chunk_filename p (ks ! i))
          = Some (take (nat c) (drop (pos + i * nat c) xs)))
    \<and> (\<forall>i<length ks. \<not> write_fails en (chunk_filename p (ks ! i))
          (take (nat c) (drop (pos + i * nat c) xs)))
    \<and> trace w' = trace w @ map (\<lambda>k. WriteFile (chunk_filename p k)) ks
    \<and> logged w' = logged w"
  using assms
proof (induction ks arbitrary: pos w)
  case Nil
  then show ?case by simp
next
  case (Cons k ks)
  let ?d = "take (nat c) (drop pos xs)"
  have rd: "file_read w p pos c = Inr ?d"
    using Cons.prems(2,3) by (simp add: file_read_def)
  obtain r w1 where fw: "file_write en w (chunk_filename p k) ?d = (r, w1)"
    by (cases "file_write en w (chunk_filename p k) ?d")
  from Cons.prems(1) rd fw obtain u1 where r: "r = Inr u1"
    and rest: "split_loop en c p ks (pos + length ?d) w1 = (Inr u, w')"
    by (cases r) auto
  from file_write_ok[OF fw[unfolded r]]
  have w1: "files w1 = (files w)(chunk_filename p k \<mapsto> ?d)"
     "trace w1 = trace w @ [WriteFile (chunk_filename p k)]" "logged w1 = logged w"
    and nf: "\<not> write_fails en (chunk_filename p k) ?d"
    by (auto simp: write_fails_def)
  have p1: "files w1 p = Some xs"
    using Cons.prems(2) by (simp add: w1 chunk_filename_neq[symmetric])
  have dist: "distinct (map (chunk_filename p) ks)" and notin: "chunk_filename p k \<notin> chunk_filename p ` set ks"
    using Cons.prems(4) by auto
  note IH = Cons.IH[OF rest p1 Cons.prems(3) dist]
  have a: "files w' p = Some xs" using IH by blast
  have b: "\<forall>q. q \<notin> chunk_filename p ` set (k # ks) \<longrightarrow> files w' q = files w q"
  proof (intro allI impI)
    fix q assume q: "q \<notin> chunk_filename p ` set (k # ks)"
    then have "files w' q = files w1 q" using IH by auto
    also have "\<dots> = files w q" using q by (simp add: w1)
    finally show "files w' q = files w q" .
  qed
  have c: "\<forall>i<length (k # ks). files w' (chunk_filename p ((k # ks) ! i))
          = Some (take (nat c) (drop (pos + i * nat c) xs))"
  proof (intro allI impI)
    fix i assume i: "i < length (k # ks)"
    show "files w' (chunk_filename p ((k # ks) ! i)) = Some (take (nat c) (drop (pos + i * nat c) xs))"
    proof (cases i)
      case 0
      have "files w' (chunk_filename p k) = files w1 (chunk_filename p k)"
        using IH notin by blast
      then show ?thesis using 0 by (simp add: w1)
    next
      case (Suc j)
      then have j: "j < length ks" using i by simp
      have "files w' (chunk_filename p (ks ! j))
            = Some (take (nat c) (drop (pos + length ?d + j * nat c) xs))"
        using IH j by blast
      also have "take (nat c) (drop (pos + length ?d + j * nat c) xs)
            = take (nat c) (drop (pos + nat c + j * nat c) xs)"
        by (rule slice_shift)
      finally show ?thesis using Suc by (simp add: add.assoc)
    qed
  qed
  have c': "\<forall>i<length (k # ks). \<not> write_fails en (chunk_filename p ((k # ks) ! i))
          (take (nat c) (drop (pos + i * nat c) xs))"
  proof (intro allI impI)
    fix i assume i: "i < length (k # ks)"
    show "\<not> write_fails en (chunk_filename p ((k # ks) ! i)) (take (nat c) (drop (pos + i * nat c) xs))"
    proof (cases i)
      case 0
      then show ?thesis using nf by simp
    next
      case (Suc j)
      then have j: "j < length ks" using i by simp
      have "\<not> write_fails en (chunk_filename p (ks ! j))
              (take (nat c) (drop (pos + length ?d + j * nat c) xs))"
        using IH j by blast
      moreover have "take (nat c) (drop (pos + length ?d + j * nat c) xs)
            = take (nat c) (drop (pos + nat c + j * nat c) xs)"
        by (rule slice_shift)
      ultimately show ?thesis using Suc by (simp add: add.assoc)
    qed
  qed
  have d: "trace w' = trace w @ map (\<lambda>k. WriteFile (chunk_filename p k)) (k # ks)"
    using IH by (simp add: w1)
  have e: "logged w' = logged w" using IH by (simp add: w1)
  from a b c c' d e show ?case by blast
qed

section \<open>The number of chunks\<close>

lemma num_chunks_ceiling:
  assumes "0 < c"
  shows "(int s + c - 1) div c = expected_chunks s c"
proof -
  let ?a = "int s + c - 1"
  let ?n = "?a div c"
  have eq: "c * ?n + ?a mod c = ?a" by simp
  have lo: "0 \<le> ?a mod c" and hi: "?a mod c < c" using assms by simp_all
  have u: "int s \<le> c * ?n" using eq hi by linarith
  have l: "c * ?n - c < int s" using eq lo by linarith
  have c': "0 < real_of_int c" using assms by simp
  have "real_of_int ?n - 1 < real s / real_of_int c"
  proof -
    have "real_of_int (c * ?n - c) < real_of_int (int s)" using l by (simp only: of_int_less_iff)
    then have "(real_of_int ?n - 1) * real_of_int c < real s" by (simp add: algebra_simps)
    then show ?thesis using c' by (simp add: pos_less_divide_eq)
  qed
  moreover have "real s / real_of_int c \<le> real_of_int ?n"
  proof -
    have "real_of_int (int s) \<le> real_of_int (c * ?n)" using u by (simp only: of_int_le_iff)
    then have "real s \<le> real_of_int ?n * real_of_int c" by (simp add: algebra_simps)
    then show ?thesis using c' by (simp add: pos_divide_le_eq)
  qed
  ultimately show ?thesis unfolding expected_chunks_def by (simp add: ceiling_unique)
qed

lemma num_chunks_bounds:
  assumes "0 < c" and "n = (int s + c - 1) div c"
  shows "int s \<le> n * c" and "(n - 1) * c < int s"
proof -
  let ?a = "int s + c - 1"
  have eq: "c * (?a div c) + ?a mod c = ?a" by simp
  have lo: "0 \<le> ?a mod c" and hi: "?a mod c < c" using assms by simp_all
  have "int s \<le> c * (?a div c)" using eq hi by linarith
  then show "int s \<le> n * c" using assms(2) by (simp add: mult.commute)
  have "c * (?a div c) - c < int s" using eq lo by linarith
  then show "(n - 1) * c < int s" using assms(2) by (simp add: algebra_simps)
qed

lemma map_upto_shift: "map f [1..n] = map (\<lambda>i. f (1 + int i)) [0..<nat n]"
  by (rule nth_equalityI) simp_all

section \<open>Splitting one file\<close>

lemma split_file_try_ok:
  assumes ok: "split_file_try en sp w p = (Inr u, w')"
    and f: "files w p = Some xs" and c: "0 < chunk_size_bytes sp"
  shows "files w' p = None
    \<and> (\<forall>q. q \<noteq> p \<and> q \<notin> chunk_filename p ` {1..(int (length xs) + chunk_size_bytes sp - 1) div chunk_size_bytes sp}
          \<longrightarrow> files w' q = files w q)
    \<and> (\<forall>i<nat ((int (length xs) + chunk_size_bytes sp - 1) div chunk_size_bytes sp).
          files w' (chunk_filename p (1 + int i))
            = Some (take (nat (chunk_size_bytes sp)) (drop (i * nat (chunk_size_bytes sp)) xs)))
    \<and> (\<forall>i<nat ((int (length xs) + chunk_size_bytes sp - 1) div chunk_size_bytes sp).
          \<not> write_fails en (chunk_filename p (1 + int i))
            (take (nat (chunk_size_bytes sp)) (drop (i * nat (chunk_size_bytes sp)) xs)))
    \<and> trace w' = trace w @ [Stat p, OpenRead p]
          @ map (\<lambda>k. WriteFile (chunk_filename p k))
              [1..(int (length xs) + chunk_size_bytes sp - 1) div chunk_size_bytes sp]
          @ [Remove p]
    \<and> logged w' = logged w"
proof -
  let ?c = "chunk_size_bytes sp"
  let ?n = "(int (length xs) + ?c - 1) div ?c"
  let ?w2 = "emit (OpenRead p) (emit (Stat p) w)"
  have gs: "os_path_getsize en w p = (Inr (int (length xs)), emit (Stat p) w)"
    using f by (simp add: os_path_getsize_def)
  have nc: "num_chunks_of (int (length xs)) ?c = Inr ?n"
    using c by (simp add: num_chunks_of_def)
  have f2: "files ?w2 p = Some xs" using f by (simp add: emit_def)
  have op: "open_rb en (emit (Stat p) w) p = (Inr (), ?w2)"
    using ok f gs nc by (auto simp: split_file_try_def open_rb_def emit_def split: if_splits)
  obtain r w3 where lp: "split_loop en ?c p [1..?n] 0 ?w2 = (r, w3)"
    by (cases "split_loop en ?c p [1..?n] 0 ?w2")
  from ok gs nc op lp obtain u3 where r: "r = Inr u3" and rm: "os_remove en w3 p = (Inr u, w')"
    by (cases r) (auto simp: split_file_try_def)
  note L = split_loop_ok[OF lp[unfolded r] f2 c distinct_chunk_filenames]
  have w3p: "files w3 p = Some xs" using L by blast
  have w': "files w' = (files w3)(p := None)" "trace w' = trace w3 @ [Remove p]" "logged w' = logged w3"
    using rm by (auto simp: os_remove_def emit_def split: if_splits)
  have a: "files w' p = None" by (simp add: w')
  have b: "\<forall>q. q \<noteq> p \<and> q \<notin> chunk_filename p ` {1..?n} \<longrightarrow> files w' q = files w q"
  proof (intro allI impI)
    fix q assume q: "q \<noteq> p \<and> q \<notin> chunk_filename p ` {1..?n}"
    then have "files w3 q = files ?w2 q" using L by simp
    then show "files w' q = files w q" using q by (simp add: w' emit_def)
  qed
  have d: "\<forall>i<nat ?n. files w' (chunk_filename p (1 + int i))
            = Some (take (nat ?c) (drop (i * nat ?c) xs))"
  proof (intro allI impI)
    fix i assume i: "i < nat ?n"
    then have "i < length [1..?n]" by simp
    then have "files w3 (chunk_filename p ([1..?n] ! i)) = Some (take (nat ?c) (drop (0 + i * nat ?c) xs))"
      using L by blast
    moreover have "[1..?n] ! i = 1 + int i" using i by simp
    ultimately show "files w' (chunk_filename p (1 + int i)) = Some (take (nat ?c) (drop (i * nat ?c) xs))"
      by (simp add: w' chunk_filename_neq)
  qed
  have d': "\<forall>i<nat ?n. \<not> write_fails en (chunk_filename p (1 + int i))
            (take (nat ?c) (drop (i * nat ?c) xs))"
  proof (intro allI impI)
    fix i assume i: "i < nat ?n"
    then have "i < length [1..?n]" by simp
    then have "\<not> write_fails en (chunk_filename p ([1..?n] ! i)) (take (nat ?c) (drop (0 + i * nat ?c) xs))"
      using L by blast
    moreover have "[1..?n] ! i = 1 + int i" using i by simp
    ultimately show "\<not> write_fails en (chunk_filename p (1 + int i)) (take (nat ?c) (drop (i * nat ?c) xs))"
      by simp
  qed
  have e: "trace w' = trace w @ [Stat p, OpenRead p]
          @ map (\<lambda>k. WriteFile (chunk_filename p k)) [1..?n] @ [Remove p]"
    using L by (simp add: w' emit_def)
  have g: "logged w' = logged w" using L by (simp add: w' emit_def)
  from a b d d' e g show ?thesis by blast
qed

lemma split_file_True:
  "split_file en sp w p = (True, sp', w') \<Longrightarrow>
     (\<exists>u. split_file_try en sp w p = (Inr u, w')) \<and> sp' = sp\<lparr>files_split := files_split sp + 1\<rparr>"
  by (auto simp: split_file_def split: prod.splits sum.splits)

lemma split_file_try_chunks:
  assumes t: "split_file_try en sp w file_path = (Inr u, w')"
    and f: "files w file_path = Some xs" and c: "0 < chunk_size_bytes sp"
  shows "(\<forall>k \<in> {1..expected_chunks (length xs) (chunk_size_bytes sp)}.
            files w' (chunk_filename file_path k)
              = Some (take (nat (chunk_size_bytes sp))
                        (drop (nat ((k - 1) * chunk_size_bytes sp)) xs)))
    \<and> concat_chunks w' file_path (expected_chunks (length xs) (chunk_size_bytes sp)) = xs"
proof -
  let ?c = "chunk_size_bytes sp"
  let ?n = "expected_chunks (length xs) ?c"
  have n: "(int (length xs) + ?c - 1) div ?c = ?n"
    by (rule num_chunks_ceiling[OF c])
  note T = split_file_try_ok[OF t f c, unfolded n]
  have le: "int (length xs) \<le> ?n * ?c"
    using num_chunks_bounds[OF c n[symmetric]] by simp
  have slice: "files w' (chunk_filename file_path k)
        = Some (take (nat ?c) (drop (nat ((k - 1) * ?c)) xs))" if k: "k \<in> {1..?n}" for k
  proof -
    have i: "nat (k - 1) < nat ?n" using k by simp
    have "files w' (chunk_filename file_path (1 + int (nat (k - 1))))
         = Some (take (nat ?c) (drop (nat (k - 1) * nat ?c) xs))"
      using T i by blast
    moreover have "1 + int (nat (k - 1)) = k" using k by simp
    moreover have "nat (k - 1) * nat ?c = nat ((k - 1) * ?c)"
      using k c by (simp add: nat_mult_distrib)
    ultimately show ?thesis by simp
  qed
  have cc: "concat_chunks w' file_path ?n = xs"
  proof -
    have "concat_chunks w' file_path ?n
        = concat (map (\<lambda>i. case files w' (chunk_filename file_path (1 + int i)) of
                             None \<Rightarrow> [] | Some d \<Rightarrow> d) [0..<nat ?n])"
      unfolding concat_chunks_def by (simp only: map_upto_shift)
    also have "\<dots> = concat (map (\<lambda>i. take (nat ?c) (drop (i * nat ?c) xs)) [0..<nat ?n])"
      using T by (intro arg_cong[where f = concat] map_cong) auto
    also have "\<dots> = take (nat ?n * nat ?c) xs" by (rule concat_slices)
    also have "\<dots> = xs"
    proof -
      have "0 \<le> ?n"
      proof (rule ccontr)
        assume "\<not> 0 \<le> ?n"
        then have "?n * ?c < 0" using c by (simp add: mult_less_0_iff)
        with le show False by simp
      qed
      then have "int (nat ?n * nat ?c) = ?n * ?c" using c by simp
      then have "length xs \<le> nat ?n * nat ?c" using le by linarith
      then show ?thesis by simp
    qed
    finally show ?thesis .
  qed
  from slice cc show ?thesis by blast
qed

text \<open>
  Claim C1. Let the source file hold \<open>S > 0\<close> bytes and the chunk size be \<open>C > 0\<close>, and let
  \<open>split_file\<close> return \<open>True\<close>. Then the files it wrote are, in this order, the chunk files
  \<open>1..\<lceil>S/C\<rceil>\<close>, and their names are pairwise different; the name of chunk \<open>k\<close> is the source
  path followed by \<open>.part\<close> and by the decimal digits of \<open>k\<close> padded with zeros to three
  digits; chunk \<open>k\<close> holds the \<open>k\<close>-th slice of \<open>C\<close> bytes of the source, so at most \<open>C\<close> bytes,
  and exactly \<open>C\<close> for every chunk before the last; the chunks concatenated in order are
  the source bytes; the source file is gone; no other file has changed; and the split is
  counted.
\<close>

theorem split_file_round_trip:
  assumes "files w file_path = Some xs" and "xs \<noteq> []" and "0 < chunk_size_bytes sp"
    and "split_file en sp w file_path = (True, sp', w')"
  shows "trace w' = trace w @ [Stat file_path, OpenRead file_path]
            @ map (\<lambda>k. WriteFile (chunk_filename file_path k))
                [1..expected_chunks (length xs) (chunk_size_bytes sp)]
            @ [Remove file_path]
    \<and> distinct (map (chunk_filename file_path) [1..expected_chunks (length xs) (chunk_size_bytes sp)])
    \<and> (\<forall>k \<in> {1..expected_chunks (length xs) (chunk_size_bytes sp)}.
          \<exists>s. chunk_filename file_path k = file_path @ ''.part'' @ s \<and> zero_padded_3 k s)
    \<and> (\<forall>k \<in> {1..expected_chunks (length xs) (chunk_size_bytes sp)}.
          \<exists>d. files w' (chunk_filename file_path k) = Some d
             \<and> d = take (nat (chunk_size_bytes sp)) (drop (nat ((k - 1) * chunk_size_bytes sp)) xs)
             \<and> int (length d) \<le> chunk_size_bytes sp
             \<and> (k < expected_chunks (length xs) (chunk_size_bytes sp)
                  \<longrightarrow> int (length d) = chunk_size_bytes sp))
    \<and> concat_chunks w' file_path (expected_chunks (length xs) (chunk_size_bytes sp)) = xs
    \<and> files w' file_path = None
    \<and> (\<forall>q. q \<noteq> file_path
            \<and> q \<notin> chunk_filename file_path ` {1..expected_chunks (length xs) (chunk_size_bytes sp)}
          \<longrightarrow> files w' q = files w q)
    \<and> files_split sp' = files_split sp + 1 \<and> files_failed sp' = files_failed sp"
proof -
  let ?c = "chunk_size_bytes sp"
  let ?n = "expected_chunks (length xs) ?c"
  have n: "(int (length xs) + ?c - 1) div ?c = ?n"
    by (rule num_chunks_ceiling[OF assms(3)])
  from split_file_True[OF assms(4)] obtain u where
    t: "split_file_try en sp w file_path = (Inr u, w')"
    and sp': "sp' = sp\<lparr>files_split := files_split sp + 1\<rparr>" by blast
  note T = split_file_try_ok[OF t assms(1) assms(3), unfolded n]
  note C = split_file_try_chunks[OF t assms(1) assms(3)]
  have gt: "(?n - 1) * ?c < int (length xs)"
    using num_chunks_bounds[OF assms(3) n[symmetric]] by simp
  have names: "\<forall>k \<in> {1..?n}.
          \<exists>s. chunk_filename file_path k = file_path @ ''.part'' @ s \<and> zero_padded_3 k s"
  proof
    fix k assume "k \<in> {1..?n}"
    then have "0 \<le> k" by simp
    from zero_padded_format_03d[OF this]
    show "\<exists>s. chunk_filename file_path k = file_path @ ''.part'' @ s \<and> zero_padded_3 k s"
      by (auto simp: chunk_filename_def)
  qed
  have chunks: "\<forall>k \<in> {1..?n}.
          \<exists>d. files w' (chunk_filename file_path k) = Some d
             \<and> d = take (nat ?c) (drop (nat ((k - 1) * ?c)) xs)
             \<and> int (length d) \<le> ?c \<and> (k < ?n \<longrightarrow> int (length d) = ?c)"
  proof
    fix k assume k: "k \<in> {1..?n}"
    let ?d = "take (nat ?c) (drop (nat ((k - 1) * ?c)) xs)"
    have l1: "int (length ?d) \<le> ?c" using assms(3) by simp
    have l2: "int (length ?d) = ?c" if "k < ?n"
    proof -
      have "k * ?c \<le> (?n - 1) * ?c" using that assms(3) by (simp add: mult_right_mono)
      then have "k * ?c < int (length xs)" using gt by linarith
      then have "(k - 1) * ?c + ?c < int (length xs)" by (simp add: algebra_simps)
      moreover have "0 \<le> (k - 1) * ?c" using k assms(3) by simp
      ultimately have "nat ((k - 1) * ?c) + nat ?c \<le> length xs" using assms(3) by linarith
      then show ?thesis using assms(3) by simp
    qed
    show "\<exists>d. files w' (chunk_filename file_path k) = Some d
             \<and> d = take (nat ?c) (drop (nat ((k - 1) * ?c)) xs)
             \<and> int (length d) \<le> ?c \<and> (k < ?n \<longrightarrow> int (length d) = ?c)"
      using C k l1 l2 by blast
  qed
  have cc: "concat_chunks w' file_path ?n = xs" using C by blast
  show ?thesis
    using T names chunks cc distinct_chunk_filenames[of file_path ?n] by (simp add: sp')
qed

lemmas splitter_defs = split_file_def split_file_try_def os_path_getsize_def num_chunks_of_def
      open_rb_def os_remove_def file_read_def file_write_def emit_def logger_def
      chunk_filename_def format_03d_def zfill_def dec_digits.simps digit_char_def upto.simps

lemmas sample_defs = quiet_env_def small_splitter_def sample_world_def seven_bytes_def

text \<open>
  Seven bytes of \<open>d/a.bin\<close> in chunks of three: the split succeeds, it writes
  \<open>d/a.bin.part001\<close>, \<open>d/a.bin.part002\<close> and \<open>d/a.bin.part003\<close> with three, three and one
  byte, the three chunks give the seven bytes back, and the source is removed.
\<close>

theorem split_file_round_trip_witness:
  "files sample_world ''d/a.bin'' = Some seven_bytes \<and> seven_bytes \<noteq> []
   \<and> 0 < chunk_size_bytes small_splitter
   \<and> fst (split_file quiet_env small_splitter sample_world ''d/a.bin'')
   \<and> files (snd (snd (split_file quiet_env small_splitter sample_world ''d/a.bin'')))
        ''d/a.bin.part001'' = Some [1, 2, 3]
   \<and> files (snd (snd (split_file quiet_env small_splitter sample_world ''d/a.bin'')))
        ''d/a.bin.part002'' = Some [4, 5, 6]
   \<and> files (snd (snd (split_file quiet_env small_splitter sample_world ''d/a.bin'')))
        ''d/a.bin.part003'' = Some [7]
   \<and> trace (snd (snd (split_file quiet_env small_splitter sample_world ''d/a.bin'')))
        = [Stat ''d/a.bin'', OpenRead ''d/a.bin'', WriteFile ''d/a.bin.part001'',
           WriteFile ''d/a.bin.part002'', WriteFile ''d/a.bin.part003'', Remove ''d/a.bin'']
   \<and> concat_chunks (snd (snd (split_file quiet_env small_splitter sample_world ''d/a.bin'')))
        ''d/a.bin'' 3 = seven_bytes
   \<and> files (snd (snd (split_file quiet_env small_splitter sample_world ''d/a.bin''))) ''d/a.bin'' = None"
proof -
  have h1: "files sample_world ''d/a.bin'' = Some seven_bytes" by (simp add: sample_defs)
  have h2: "seven_bytes \<noteq> []" by (simp add: seven_bytes_def)
  have h3: "0 < chunk_size_bytes small_splitter" by (simp add: small_splitter_def)
  have r: "fst (split_file quiet_env small_splitter sample_world ''d/a.bin'') = True"
    by (simp add: splitter_defs sample_defs)
  then obtain sp' w' where run:
    "split_file quiet_env small_splitter sample_world ''d/a.bin'' = (True, sp', w')"
    by (cases "split_file quiet_env small_splitter sample_world ''d/a.bin''") auto
  have n: "expected_chunks (length seven_bytes) (chunk_size_bytes small_splitter) = 3"
    by (simp add: expected_chunks_def seven_bytes_def small_splitter_def)
  have names: "chunk_filename ''d/a.bin'' 1 = ''d/a.bin.part001''"
    "chunk_filename ''d/a.bin'' 2 = ''d/a.bin.part002''"
    "chunk_filename ''d/a.bin'' 3 = ''d/a.bin.part003''"
    by code_simp+
  have range: "[1..3] = [1, 2, 3 :: int]" by (simp add: upto.simps)
  note T = split_file_round_trip[OF h1 h2 h3 run, unfolded n]
  have tr: "trace w' = [Stat ''d/a.bin'', OpenRead ''d/a.bin'', WriteFile ''d/a.bin.part001'',
           WriteFile ''d/a.bin.part002'', WriteFile ''d/a.bin.part003'', Remove ''d/a.bin'']"
    using T by (simp add: range names sample_world_def)
  have "files w' (chunk_filename ''d/a.bin'' 1) = Some [1, 2, 3]"
    "files w' (chunk_filename ''d/a.bin'' 2) = Some [4, 5, 6]"
    "files w' (chunk_filename ''d/a.bin'' 3) = Some [7]"
    using T by (auto simp: seven_bytes_def small_splitter_def)
  then have fs: "files w' ''d/a.bin.part001'' = Some [1, 2, 3]"
    "files w' ''d/a.bin.part002'' = Some [4, 5, 6]" "files w' ''d/a.bin.part003'' = Some [7]"
    by (simp_all add: names)
  from T h1 h2 h3 tr fs show ?thesis by (simp add: run)
qed

section \<open>Failures while splitting\<close>

lemma file_write_frame:
  "file_write en w q d = (r, w1) \<Longrightarrow> x \<noteq> q \<Longrightarrow> files w1 x = files w x"
  by (auto simp: file_write_def emit_def split: write_outcome.splits if_splits)

lemma split_loop_source:
  "split_loop en c p ks pos w = (r, w') \<Longrightarrow> files w' p = files w p"
proof (induction ks arbitrary: pos w)
  case Nil
  then show ?case by simp
next
  case (Cons k ks)
  show ?case
  proof (cases "file_read w p pos c")
    case (Inl e)
    with Cons.prems show ?thesis by simp
  next
    case (Inr d)
    obtain r1 w1 where fw: "file_write en w (chunk_filename p k) d = (r1, w1)"
      by (cases "file_write en w (chunk_filename p k) d")
    have w1: "files w1 p = files w p"
      by (rule file_write_frame[OF fw]) (simp add: chunk_filename_neq[symmetric])
    show ?thesis
    proof (cases r1)
      case (Inl e)
      with Cons.prems Inr fw w1 show ?thesis by simp
    next
      case r1: (Inr u1)
      with Cons.prems Inr fw have "split_loop en c p ks (pos + length d) w1 = (r, w')" by simp
      from Cons.IH[OF this] w1 show ?thesis by simp
    qed
  qed
qed

lemma split_file_try_source:
  "split_file_try en sp w p = (Inl e, w') \<Longrightarrow> files w' p = files w p"
  by (auto simp: split_file_try_def os_path_getsize_def num_chunks_of_def open_rb_def
        os_remove_def emit_def
      split: option.splits if_splits prod.splits sum.splits dest!: split_loop_source)

lemma split_file_False:
  "split_file en sp w p = (False, sp', w') \<Longrightarrow>
     files w' p = files w p \<and> sp' = sp\<lparr>files_failed := files_failed sp + 1\<rparr>"
  by (auto simp: split_file_def logger_def split: prod.splits sum.splits dest: split_file_try_source)

lemma split_file_scanned:
  "split_file en sp w p = (ok, sp', w') \<Longrightarrow> files_scanned sp' = files_scanned sp
     \<and> max_size_bytes sp' = max_size_bytes sp \<and> chunk_size_bytes sp' = chunk_size_bytes sp"
  by (cases ok) (auto dest: split_file_True split_file_False)

lemma split_file_scanned_snd:
  "files_scanned (fst (snd (split_file en sp w p))) = files_scanned sp"
  by (simp add: split_file_def split: prod.splits sum.splits)

lemma scan_file_scanned:
  "files_scanned (fst (scan_file en root_dir f st))
     = files_scanned (fst st) + (if contains ''.part'' f then 0 else 1)"
proof -
  obtain sp w where st: "st = (sp, w)" by (cases st)
  show ?thesis
    unfolding st scan_file_def
    by (auto simp: Let_def os_path_getsize_def split_file_scanned_snd split: option.splits)
qed

lemma scan_files_scanned:
  "files_scanned (fst (fold (scan_file en root_dir) filenames st))
     = files_scanned (fst st) + length (filter (\<lambda>f. \<not> contains ''.part'' f) filenames)"
  by (induction filenames arbitrary: st) (simp_all add: scan_file_scanned)

section \<open>Splitting without faults\<close>

lemma split_loop_succeeds:
  "files w p = Some xs \<Longrightarrow> \<forall>q. write_fault en q = WriteOk \<Longrightarrow> 0 < c \<Longrightarrow>
     \<exists>w'. split_loop en c p ks pos w = (Inr (), w')"
proof (induction ks arbitrary: pos w)
  case Nil
  then show ?case by simp
next
  case (Cons k ks)
  let ?d = "take (nat c) (drop pos xs)"
  let ?w1 = "emit (WriteFile (chunk_filename p k)) (w\<lparr>files := (files w)(chunk_filename p k \<mapsto> ?d)\<rparr>)"
  have rd: "file_read w p pos c = Inr ?d" using Cons.prems(1,3) by (simp add: file_read_def)
  have fw: "file_write en w (chunk_filename p k) ?d = (Inr (), ?w1)"
    using Cons.prems(2) by (simp add: file_write_def)
  have "files ?w1 p = Some xs"
    using Cons.prems(1) by (simp add: emit_def chunk_filename_neq[symmetric])
  from Cons.IH[OF this Cons.prems(2,3)] rd fw show ?case by simp
qed

lemma split_file_succeeds:
  assumes "files w p = Some xs" and "0 < chunk_size_bytes sp" and "\<forall>q. write_fault en q = WriteOk"
    and "\<not> remove_fails en p" and "\<not> read_fails en p"
  shows "fst (split_file en sp w p) = True"
proof -
  let ?c = "chunk_size_bytes sp"
  let ?w2 = "emit (OpenRead p) (emit (Stat p) w)"
  have f2: "files ?w2 p = Some xs" using assms(1) by (simp add: emit_def)
  from split_loop_succeeds[OF f2 assms(3) assms(2)] obtain w3 where
    lp: "split_loop en ?c p [1..(int (length xs) + ?c - 1) div ?c] 0 ?w2 = (Inr (), w3)" by blast
  have "files w3 p = Some xs" using split_loop_source[OF lp] f2 by simp
  then show ?thesis
    using assms lp
    by (simp add: split_file_def split_file_try_def os_path_getsize_def num_chunks_of_def
        open_rb_def os_remove_def emit_def)
qed

text \<open>
  Claim C6. Whenever \<open>split_file\<close> returns \<open>False\<close>, the source file is as it was before
  the call, the failure counter has grown by one and the split counter has not. If the
  write of any one of the chunks fails, \<open>split_file\<close> returns \<open>False\<close>; so the source is
  removed only when every chunk was written. And the scan goes on whatever happens to
  one file: after the loop over the names of a directory, every name without the chunk
  marker has been counted as scanned.
\<close>

theorem split_file_failure_keeps_source:
  assumes "split_file en sp w file_path = (ok, sp', w')"
  shows "(\<not> ok \<longrightarrow> files w' file_path = files w file_path
             \<and> files_failed sp' = files_failed sp + 1 \<and> files_split sp' = files_split sp)
    \<and> (\<forall>xs k. files w file_path = Some xs \<and> 0 < chunk_size_bytes sp
            \<and> k \<in> {1..expected_chunks (length xs) (chunk_size_bytes sp)}
            \<and> write_fails en (chunk_filename file_path k)
                 (take (nat (chunk_size_bytes sp)) (drop (nat ((k - 1) * chunk_size_bytes sp)) xs))
          \<longrightarrow> \<not> ok)
    \<and> files_scanned (fst (fold (scan_file en root_dir) filenames (sp, w)))
        = files_scanned sp + length (filter (\<lambda>f. \<not> contains ''.part'' f) filenames)"
proof -
  have a: "\<not> ok \<longrightarrow> files w' file_path = files w file_path
             \<and> files_failed sp' = files_failed sp + 1 \<and> files_split sp' = files_split sp"
  proof
    assume "\<not> ok"
    with assms have "split_file en sp w file_path = (False, sp', w')" by simp
    from split_file_False[OF this] show "files w' file_path = files w file_path
             \<and> files_failed sp' = files_failed sp + 1 \<and> files_split sp' = files_split sp"
      by simp
  qed
  have b: "\<not> ok" if h: "files w file_path = Some xs" "0 < chunk_size_bytes sp"
      "k \<in> {1..expected_chunks (length xs) (chunk_size_bytes sp)}"
      "write_fails en (chunk_filename file_path k)
         (take (nat (chunk_size_bytes sp)) (drop (nat ((k - 1) * chunk_size_bytes sp)) xs))"
    for xs k
  proof
    assume ok
    let ?c = "chunk_size_bytes sp"
    have n: "(int (length xs) + ?c - 1) div ?c = expected_chunks (length xs) ?c"
      by (rule num_chunks_ceiling[OF h(2)])
    from \<open>ok\<close> assms have "split_file en sp w file_path = (True, sp', w')" by simp
    from split_file_True[OF this] obtain u where
      t: "split_file_try en sp w file_path = (Inr u, w')" by blast
    note T = split_file_try_ok[OF t h(1) h(2), unfolded n]
    have i: "nat (k - 1) < nat (expected_chunks (length xs) ?c)" using h(3) by simp
    have "\<not> write_fails en (chunk_filename file_path (1 + int (nat (k - 1))))
            (take (nat ?c) (drop (nat (k - 1) * nat ?c) xs))"
      using T i by blast
    moreover have "1 + int (nat (k - 1)) = k" using h(3) by simp
    moreover have "nat (k - 1) * nat ?c = nat ((k - 1) * ?c)"
      using h(2,3) by (simp add: nat_mult_distrib)
    ultimately show False using h(4) by simp
  qed
  have c: "files_scanned (fst (fold (scan_file en root_dir) filenames (sp, w)))
        = files_scanned sp + length (filter (\<lambda>f. \<not> contains ''.part'' f) filenames)"
    by (simp add: scan_files_scanned)
  from a b c show ?thesis by blast
qed

section \<open>The command line of the splitter\<close>

text \<open>
  Claim C8. When the chunk size given on the command line (or its default 85) is not less
  than the maximum size (or its default 90), whatever \<open>int\<close> reads from the arguments,
  \<open>main\<close> exits with code 1, and the world it leaves is the world it found plus one logged
  error: no file has changed and no input/output operation was performed.
\<close>

theorem main_rejects_chunk_not_less_than_max:
  assumes "(if length argv > 2 then int_of_str en (argv ! 2) else Some 90) = Some max_size_mb"
    and "(if length argv > 3 then int_of_str en (argv ! 3) else Some 85) = Some chunk_size_mb"
    and "chunk_size_mb \<ge> max_size_mb"
  shows "main en argv w = (Exit 1, logger ERROR (ChunkSizeMustBeLess chunk_size_mb max_size_mb) w)
    \<and> files (snd (main en argv w)) = files w \<and> trace (snd (main en argv w)) = trace w"
  using assms by (simp add: main_def logger_def)

text \<open>
  A maximum size of 80 with the default chunk size of 85.
\<close>

theorem main_rejects_chunk_not_less_than_max_witness:
  "main quiet_env [''split_large_files.py'', ''d'', ''80''] sample_world
     = (Exit 1, logger ERROR (ChunkSizeMustBeLess 85 80) sample_world)
   \<and> files (snd (main quiet_env [''split_large_files.py'', ''d'', ''80''] sample_world))
       = files sample_world
   \<and> trace (snd (main quiet_env [''split_large_files.py'', ''d'', ''80''] sample_world)) = []"
proof -
  let ?argv = "[''split_large_files.py'', ''d'', ''80'']"
  have p: "int_of_str quiet_env ''80'' = Some 80" by code_simp
  have h1: "(if length ?argv > 2 then int_of_str quiet_env (?argv ! 2) else Some 90) = Some 80"
    using p by simp
  have h2: "(if length ?argv > 3 then int_of_str quiet_env (?argv ! 3) else Some 85) = Some 85"
    by simp
  have h3: "(85::int) \<ge> 80" by simp
  have t: "trace sample_world = []" by (simp add: sample_world_def)
  from main_rejects_chunk_not_less_than_max[OF h1 h2 h3, of sample_world] t
  show ?thesis by (simp add: logger_def)
qed

section \<open>The size threshold\<close>

text \<open>
  Claim C9. For a file that exists and whose name does not contain the chunk marker, the
  scan hands the file to \<open>split_file\<close> (one more split or one more failure is counted) iff
  its size is greater than \<open>max_size_bytes\<close>; a file that is not greater is left alone.
  When the chunk size is positive and no write, read or removal fails, the file is
  removed and counted as split iff its size is greater than \<open>max_size_bytes\<close>, and then
  every chunk file holds its slice of the source and the chunks concatenated in order
  are the source bytes.
\<close>

theorem scan_file_threshold:
  assumes "files w (os_path_join root_dir filename) = Some xs"
    and "\<not> contains ''.part'' filename"
    and "scan_file en root_dir filename (sp, w) = (sp', w')"
  shows "(files_split sp' + files_failed sp' = files_split sp + files_failed sp + 1
            \<longleftrightarrow> max_size_bytes sp < int (length xs))
    \<and> (int (length xs) \<le> max_size_bytes sp \<longrightarrow>
          files w' = files w \<and> files_split sp' = files_split sp \<and> files_failed sp' = files_failed sp)
    \<and> (0 < chunk_size_bytes sp \<and> (\<forall>q. write_fault en q = WriteOk)
          \<and> \<not> remove_fails en (os_path_join root_dir filename)
          \<and> \<not> read_fails en (os_path_join root_dir filename) \<longrightarrow>
          (files w' (os_path_join root_dir filename) = None \<and> files_split sp' = files_split sp + 1
             \<longleftrightarrow> max_size_bytes sp < int (length xs))
          \<and> (max_size_bytes sp < int (length xs) \<longrightarrow>
                (\<forall>k \<in> {1..expected_chunks (length xs) (chunk_size_bytes sp)}.
                   files w' (chunk_filename (os_path_join root_dir filename) k)
                     = Some (take (nat (chunk_size_bytes sp))
                               (drop (nat ((k - 1) * chunk_size_bytes sp)) xs)))
                \<and> concat_chunks w' (os_path_join root_dir filename)
                      (expected_chunks (length xs) (chunk_size_bytes sp)) = xs
                \<and> files w' (os_path_join root_dir filename) = None
                \<and> files_split sp' = files_split sp + 1 \<and> files_failed sp' = files_failed sp))"
proof (cases "max_size_bytes sp < int (length xs)")
  case False
  then have "sp' = sp\<lparr>files_scanned := files_scanned sp + 1\<rparr>"
    and "w' = emit (Stat (os_path_join root_dir filename)) w"
    using assms by (auto simp: scan_file_def os_path_getsize_def Let_def)
  then show ?thesis using False assms(1) by (simp add: emit_def)
next
  case True
  let ?p = "os_path_join root_dir filename"
  let ?sp1 = "sp\<lparr>files_scanned := files_scanned sp + 1\<rparr>"
  let ?w1 = "emit (Stat ?p) w"
  let ?c = "chunk_size_bytes sp"
  let ?n = "expected_chunks (length xs) ?c"
  have f1: "files ?w1 ?p = Some xs" using assms(1) by (simp add: emit_def)
  obtain ok where sf: "split_file en ?sp1 ?w1 ?p = (ok, sp', w')"
    using True assms by (cases "split_file en ?sp1 ?w1 ?p") (auto simp: scan_file_def os_path_getsize_def Let_def)
  have cnt: "files_split sp' + files_failed sp' = files_split sp + files_failed sp + 1"
    using sf by (cases ok) (auto dest!: split_file_True split_file_False)
  have good: "files w' ?p = None \<and> files_split sp' = files_split sp + 1
      \<and> files_failed sp' = files_failed sp
      \<and> (\<forall>k \<in> {1..?n}. files w' (chunk_filename ?p k)
                     = Some (take (nat ?c) (drop (nat ((k - 1) * ?c)) xs)))
      \<and> concat_chunks w' ?p ?n = xs"
    if h: "0 < chunk_size_bytes sp" "\<forall>q. write_fault en q = WriteOk"
      "\<not> remove_fails en ?p" "\<not> read_fails en ?p"
  proof -
    have c1: "0 < chunk_size_bytes ?sp1" using h(1) by simp
    from split_file_succeeds[OF f1 c1 h(2) h(3) h(4)] sf have ok: "ok = True" by simp
    from split_file_True[OF sf[unfolded ok]] obtain u where
      t: "split_file_try en ?sp1 ?w1 ?p = (Inr u, w')"
      and sp': "sp' = ?sp1\<lparr>files_split := files_split ?sp1 + 1\<rparr>" by blast
    from split_file_try_ok[OF t f1 c1] have gone: "files w' ?p = None" by blast
    have C: "(\<forall>k \<in> {1..?n}. files w' (chunk_filename ?p k)
                     = Some (take (nat ?c) (drop (nat ((k - 1) * ?c)) xs)))
       \<and> concat_chunks w' ?p ?n = xs"
      using split_file_try_chunks[OF t f1 c1] by simp
    from gone C show ?thesis by (simp add: sp')
  qed
  show ?thesis using True cnt good by auto
qed

section \<open>Sample runs of the splitter\<close>

text \<open>
  The write of the second chunk fails after one byte: the call returns \<open>False\<close>, the source
  still holds its seven bytes, and one failure is counted.
\<close>

theorem split_file_failure_keeps_source_witness:
  "files sample_world ''d/a.bin'' = Some seven_bytes
   \<and> (2::int) \<in> {1..expected_chunks (length seven_bytes) (chunk_size_bytes small_splitter)}
   \<and> write_fails faulty_env (chunk_filename ''d/a.bin'' 2) [4, 5, 6]
   \<and> \<not> fst (split_file faulty_env small_splitter sample_world ''d/a.bin'')
   \<and> files (snd (snd (split_file faulty_env small_splitter sample_world ''d/a.bin''))) ''d/a.bin''
       = Some seven_bytes
   \<and> files_failed (fst (snd (split_file faulty_env small_splitter sample_world ''d/a.bin''))) = 1"
proof -
  obtain ok sp' w' where run:
    "split_file faulty_env small_splitter sample_world ''d/a.bin'' = (ok, sp', w')"
    using prod_cases3 by blast
  note T = split_file_failure_keeps_source[OF run, of "''d''" "[]"]
  have h1: "files sample_world ''d/a.bin'' = Some seven_bytes" by (simp add: sample_world_def)
  have h2: "0 < chunk_size_bytes small_splitter" by (simp add: small_splitter_def)
  have h3: "(2::int) \<in> {1..expected_chunks (length seven_bytes) (chunk_size_bytes small_splitter)}"
    by (simp add: expected_chunks_def seven_bytes_def small_splitter_def)
  have sl: "take (nat (chunk_size_bytes small_splitter))
              (drop (nat ((2 - 1) * chunk_size_bytes small_splitter)) seven_bytes) = [4, 5, 6]"
    by (simp add: seven_bytes_def small_splitter_def)
  have cf: "chunk_filename ''d/a.bin'' 2 = ''d/a.bin.part002''" by code_simp
  have h4: "write_fails faulty_env (chunk_filename ''d/a.bin'' 2) [4, 5, 6]"
    by (simp add: cf write_fails_def faulty_env_def quiet_env_def)
  from T h1 h2 h3 h4 sl have nok: "\<not> ok" by metis
  with T have "files w' ''d/a.bin'' = files sample_world ''d/a.bin''"
    and "files_failed sp' = files_failed small_splitter + 1" by blast+
  moreover have "files_failed small_splitter = 0" by (simp add: small_splitter_def)
  ultimately show ?thesis using h1 h3 h4 nok by (simp add: run)
qed

text \<open>
  A file of seven bytes is split into \<open>d/a.bin.part001\<close>, \<open>d/a.bin.part002\<close> and
  \<open>d/a.bin.part003\<close> when the threshold is six, and left alone when it is seven.
\<close>

theorem scan_file_threshold_witness:
  "files (snd (scan_file quiet_env ''d'' ''a.bin'' (small_splitter, sample_world))) ''d/a.bin'' = None
   \<and> files_split (fst (scan_file quiet_env ''d'' ''a.bin'' (small_splitter, sample_world))) = 1
   \<and> files (snd (scan_file quiet_env ''d'' ''a.bin'' (small_splitter, sample_world)))
        ''d/a.bin.part001'' = Some [1, 2, 3]
   \<and> files (snd (scan_file quiet_env ''d'' ''a.bin'' (small_splitter, sample_world)))
        ''d/a.bin.part002'' = Some [4, 5, 6]
   \<and> files (snd (scan_file quiet_env ''d'' ''a.bin'' (small_splitter, sample_world)))
        ''d/a.bin.part003'' = Some [7]
   \<and> concat_chunks (snd (scan_file quiet_env ''d'' ''a.bin'' (small_splitter, sample_world)))
        ''d/a.bin'' 3 = seven_bytes
   \<and> files (snd (scan_file quiet_env ''d'' ''a.bin''
               (small_splitter\<lparr>max_size_bytes := 7\<rparr>, sample_world))) = files sample_world
   \<and> files_split (fst (scan_file quiet_env ''d'' ''a.bin''
               (small_splitter\<lparr>max_size_bytes := 7\<rparr>, sample_world))) = 0"
proof -
  have j: "os_path_join ''d'' ''a.bin'' = ''d/a.bin''"
    by (simp add: os_path_join_def startswith_def endswith_slash_def)
  have h1: "files sample_world (os_path_join ''d'' ''a.bin'') = Some seven_bytes"
    by (simp add: j sample_world_def)
  have h2: "\<not> contains ''.part'' ''a.bin''" by (simp add: startswith_def)
  have q: "0 < chunk_size_bytes small_splitter \<and> (\<forall>q. write_fault quiet_env q = WriteOk)
          \<and> \<not> remove_fails quiet_env (os_path_join ''d'' ''a.bin'')
          \<and> \<not> read_fails quiet_env (os_path_join ''d'' ''a.bin'')"
    by (simp add: small_splitter_def quiet_env_def)
  obtain sp1 w1 where r1: "scan_file quiet_env ''d'' ''a.bin'' (small_splitter, sample_world) = (sp1, w1)"
    by (cases "scan_file quiet_env ''d'' ''a.bin'' (small_splitter, sample_world)")
  obtain sp2 w2 where r2: "scan_file quiet_env ''d'' ''a.bin''
      (small_splitter\<lparr>max_size_bytes := 7\<rparr>, sample_world) = (sp2, w2)"
    by (cases "scan_file quiet_env ''d'' ''a.bin'' (small_splitter\<lparr>max_size_bytes := 7\<rparr>, sample_world)")
  have big: "max_size_bytes small_splitter < int (length seven_bytes)"
    by (simp add: small_splitter_def seven_bytes_def)
  have small: "int (length seven_bytes) \<le> max_size_bytes (small_splitter\<lparr>max_size_bytes := 7\<rparr>)"
    by (simp add: seven_bytes_def)
  have n: "expected_chunks (length seven_bytes) (chunk_size_bytes small_splitter) = 3"
    by (simp add: expected_chunks_def seven_bytes_def small_splitter_def)
  have names: "chunk_filename ''d/a.bin'' 1 = ''d/a.bin.part001''"
    "chunk_filename ''d/a.bin'' 2 = ''d/a.bin.part002''"
    "chunk_filename ''d/a.bin'' 3 = ''d/a.bin.part003''"
    by code_simp+
  note T = scan_file_threshold[OF h1 h2 r1, unfolded n j]
  from T q big
  have a: "files w1 ''d/a.bin'' = None \<and> files_split sp1 = files_split small_splitter + 1"
    by (simp add: j)
  from T q big
  have sl: "\<forall>k \<in> {1..3}. files w1 (chunk_filename ''d/a.bin'' k)
          = Some (take (nat (chunk_size_bytes small_splitter))
                    (drop (nat ((k - 1) * chunk_size_bytes small_splitter)) seven_bytes))"
    and cc: "concat_chunks w1 ''d/a.bin'' 3 = seven_bytes"
    by (simp_all add: j)
  have "files w1 (chunk_filename ''d/a.bin'' 1) = Some [1, 2, 3]"
    "files w1 (chunk_filename ''d/a.bin'' 2) = Some [4, 5, 6]"
    "files w1 (chunk_filename ''d/a.bin'' 3) = Some [7]"
    using sl by (auto simp: seven_bytes_def small_splitter_def)
  then have fs: "files w1 ''d/a.bin.part001'' = Some [1, 2, 3]"
    "files w1 ''d/a.bin.part002'' = Some [4, 5, 6]" "files w1 ''d/a.bin.part003'' = Some [7]"
    by (simp_all add: names)
  from scan_file_threshold[OF h1 h2 r2] small
  have b: "files w2 = files sample_world \<and> files_split sp2 = files_split (small_splitter\<lparr>max_size_bytes := 7\<rparr>)"
    by blast
  have z: "files_split small_splitter = 0" by (simp add: small_splitter_def)
  from a b fs cc show ?thesis by (simp add: r1 r2 z)
qed

section \<open>The directory range filter\<close>

text \<open>
  Claim C3, amended. \<open>should_process_directory\<close> accepts a name iff, with trailing
  separators stripped from the name and from the bounds, the name is not below the start
  bound and not above the end bound in the lexicographic order on strings; a bound that
  is absent (\<open>None\<close>, or the empty string, which Python's test treats alike) imposes
  nothing.
\<close>

theorem should_process_directory_range:
  "should_process_directory dl d \<longleftrightarrow>
     (truthy (start_dir dl) \<longrightarrow> rstrip_slash (str_of (start_dir dl)) \<le> rstrip_slash d)
   \<and> (truthy (end_dir dl) \<longrightarrow> rstrip_slash d \<le> rstrip_slash (str_of (end_dir dl)))"
  by (auto simp: should_process_directory_def Let_def)

text \<open>
  Claim C3 as stated compares the stripped name with the bounds as they were given. With
  the start bound \<open>h/\<close> the name \<open>h/\<close> is accepted although \<open>h\<close> is below \<open>h/\<close>, and with the
  empty string as end bound the name \<open>z/\<close> is accepted although \<open>z\<close> is above it.
\<close>

theorem should_process_directory_range_counterexample:
  "start_dir from_h_downloader = Some ''h/''
   \<and> should_process_directory from_h_downloader ''h/''
   \<and> \<not> in_range_as_claimed from_h_downloader ''h/''
   \<and> end_dir empty_end_downloader = Some []
   \<and> should_process_directory empty_end_downloader ''z/''
   \<and> \<not> in_range_as_claimed empty_end_downloader ''z/''"
  by code_simp

lemmas downloader_samples = hm_downloader_def host_downloader_def pool_downloader_def
  UbuntuPortsDownloader_init_def

text \<open>
  The examples of the specification: with the range \<open>h..m\<close>, the names \<open>h/\<close>, \<open>m/\<close> and
  \<open>k/\<close> pass and \<open>a/\<close> and \<open>n/\<close> do not; without bounds \<open>n/\<close> passes.
\<close>

theorem should_process_directory_range_witness:
  "should_process_directory hm_downloader ''h/'' \<and> should_process_directory hm_downloader ''m/''
   \<and> should_process_directory hm_downloader ''k/'' \<and> \<not> should_process_directory hm_downloader ''a/''
   \<and> \<not> should_process_directory hm_downloader ''n/''
   \<and> should_process_directory host_downloader ''n/''"
  using should_process_directory_range[of hm_downloader "''h/''"]
    should_process_directory_range[of hm_downloader "''m/''"]
    should_process_directory_range[of hm_downloader "''k/''"]
    should_process_directory_range[of hm_downloader "''a/''"]
    should_process_directory_range[of hm_downloader "''n/''"]
    should_process_directory_range[of host_downloader "''n/''"]
  by (simp add: downloader_samples truthy_def str_of_def rstrip_slash_def)

section \<open>Local paths\<close>

text \<open>
  Claim C2. For the remote root \<open>https://host/pool/universe\<close> and the output root \<open>out/\<close>,
  the specification expects the local path \<open>out/h/htop/htop_3.0.5.deb\<close>. The function
  strips the literal prefix \<open>/ubuntu-ports/pool/universe/\<close>, not the path of the configured
  root, so here nothing is stripped and the join discards the output root.
\<close>

theorem get_local_path_example:
  "get_local_path host_downloader ''https://host/pool/universe/h/htop/htop_3.0.5.deb''
     = ''/pool/universe/h/htop/htop_3.0.5.deb''"
  by code_simp

text \<open>
  Under the default remote root the mapping is the expected one.
\<close>

lemma get_local_path_default_root:
  "get_local_path host_downloader
     ''https://ports.ubuntu.com/ubuntu-ports/pool/universe/h/htop/htop_3.0.5.deb''
     = ''out/h/htop/htop_3.0.5.deb''"
  by code_simp

lemma os_path_join_absolute: "startswith b ''/'' \<Longrightarrow> os_path_join a b = b"
  by (simp add: os_path_join_def)

text \<open>
  Claim C10, amended. For a URL whose path does not begin with the literal prefix,
  \<open>get_local_path\<close> joins the output root with the URL's absolute path (a path that begins
  with a separator), and because the second argument is absolute the output root is
  discarded: the returned local path is the URL path itself, whatever the output
  directory is. Nothing is said about where that path lies.
\<close>

theorem get_local_path_outside_prefix:
  assumes "startswith (urlparse_path url) ''/''"
    and "\<not> startswith (urlparse_path url) ''/ubuntu-ports/pool/universe/''"
  shows "get_local_path dl url = os_path_join (output_dir dl) (urlparse_path url)
    \<and> get_local_path dl url = urlparse_path url"
  using assms by (simp add: get_local_path_def Let_def os_path_join_absolute)

text \<open>
  Claim C10 as stated fails when the output directory is an ancestor of the URL path:
  with the output root \<open>/pool\<close> the returned path is the output root joined with a relative
  path, so it lies inside the output directory.
\<close>

theorem get_local_path_outside_prefix_counterexample:
  "\<not> startswith (urlparse_path ''https://host/pool/universe/h/htop/htop_3.0.5.deb'')
         ''/ubuntu-ports/pool/universe/''
   \<and> output_dir pool_downloader = ''/pool''
   \<and> get_local_path pool_downloader ''https://host/pool/universe/h/htop/htop_3.0.5.deb''
       = ''/pool/universe/h/htop/htop_3.0.5.deb''
   \<and> get_local_path pool_downloader ''https://host/pool/universe/h/htop/htop_3.0.5.deb''
       = os_path_join (output_dir pool_downloader) ''universe/h/htop/htop_3.0.5.deb''"
  by code_simp

text \<open>
  The URL of the specification's example under the output root \<open>out/\<close>.
\<close>

theorem get_local_path_outside_prefix_witness:
  "startswith (urlparse_path ''https://host/pool/universe/h/htop/htop_3.0.5.deb'') ''/''
   \<and> \<not> startswith (urlparse_path ''https://host/pool/universe/h/htop/htop_3.0.5.deb'')
         ''/ubuntu-ports/pool/universe/''
   \<and> output_dir host_downloader = ''out/''
   \<and> urlparse_path ''https://host/pool/universe/h/htop/htop_3.0.5.deb''
       = ''/pool/universe/h/htop/htop_3.0.5.deb''
   \<and> get_local_path host_downloader ''https://host/pool/universe/h/htop/htop_3.0.5.deb''
       = urlparse_path ''https://host/pool/universe/h/htop/htop_3.0.5.deb''"
proof -
  let ?u = "''https://host/pool/universe/h/htop/htop_3.0.5.deb''"
  have h1: "startswith (urlparse_path ?u) ''/''" by code_simp
  have h2: "\<not> startswith (urlparse_path ?u) ''/ubuntu-ports/pool/universe/''" by code_simp
  have o: "output_dir host_downloader = ''out/''" by (simp add: downloader_samples)
  have p: "urlparse_path ?u = ''/pool/universe/h/htop/htop_3.0.5.deb''" by code_simp
  from get_local_path_outside_prefix[OF h1 h2, of host_downloader]
  have "get_local_path host_downloader ?u = urlparse_path ?u" by blast
  with h1 h2 o p show ?thesis by blast
qed

section \<open>Downloading one file\<close>

lemma concat_filter_nonempty: "concat (filter (\<lambda>chunk. chunk \<noteq> []) xs) = concat xs"
  by (induction xs) simp_all

lemma transfer_cases:
  assumes "transfer en w url p = (r, w')"
  shows "(transfer_ok en url p \<longrightarrow>
            r = Inr () \<and> (\<exists>resp. http_get en url = Inr resp
               \<and> files w' = (files w)(p \<mapsto> concat (chunks resp))
               \<and> trace w' = trace w @ [Get url, Makedirs (os_path_dirname p), WriteFile p]))
       \<and> (\<not> transfer_ok en url p \<longrightarrow> (\<exists>e. r = Inl e))
       \<and> take (Suc (length (trace w))) (trace w') = trace w @ [Get url]"
  using assms
  by (auto simp: transfer_def transfer_ok_def Let_def int_header_def os_makedirs_def
        file_write_def write_fails_def emit_def logger_def concat_filter_nonempty
      split: sum.splits header.splits if_splits write_outcome.splits)


lemma already_complete_head:
  "files w p = Some xs \<Longrightarrow> http_head en url = Inr h \<Longrightarrow> int_header h = Inr n \<Longrightarrow>
     already_complete en w url p
       = (Inr (int (length xs) = n), emit (Head url) (emit (Stat p) (emit (Stat p) w)))"
  by (simp add: already_complete_def os_path_exists_def os_path_getsize_def emit_def)

lemma already_complete_absent:
  "files w p = None \<Longrightarrow> \<not> is_dir en p \<Longrightarrow>
     already_complete en w url p = (Inr False, emit (Stat p) w)"
  by (simp add: already_complete_def os_path_exists_def)

lemma download_file_transfer:
  assumes "already_complete en w url p = (Inr False, w1)"
    and "download_file en dl w url p = (ok, dl', w')"
  shows "(ok \<longleftrightarrow> transfer_ok en url p)
    \<and> dl' = (if ok then dl\<lparr>downloaded_count := downloaded_count dl + 1\<rparr>
             else dl\<lparr>failed_count := failed_count dl + 1\<rparr>)
    \<and> take (Suc (length (trace w1))) (trace w') = trace w1 @ [Get url]
    \<and> (ok \<longrightarrow> (\<exists>resp. http_get en url = Inr resp
               \<and> files w' = (files w1)(p \<mapsto> concat (chunks resp))
               \<and> trace w' = trace w1 @ [Get url, Makedirs (os_path_dirname p), WriteFile p]))"
proof -
  obtain r w2 where t: "transfer en w1 url p = (r, w2)" by (cases "transfer en w1 url p")
  note T = transfer_cases[OF t]
  show ?thesis
  proof (cases r)
    case (Inl e)
    then have "\<not> transfer_ok en url p" using T by auto
    moreover have "ok = False" "dl' = dl\<lparr>failed_count := failed_count dl + 1\<rparr>"
      "w' = logger ERROR (FailedToDownload url e) w2"
      using assms t Inl by (simp_all add: download_file_def)
    ultimately show ?thesis using T by (simp add: logger_def)
  next
    case (Inr u)
    then have tok: "transfer_ok en url p" using T by auto
    moreover have "ok = True" "dl' = dl\<lparr>downloaded_count := downloaded_count dl + 1\<rparr>" "w' = w2"
      using assms t Inr by (simp_all add: download_file_def)
    ultimately show ?thesis using T by simp
  qed
qed


text \<open>
  Claim C5. When the local copy exists and its size is the content length the metadata
  request declares, \<open>download_file\<close> returns \<open>True\<close>, counts one skip, and performs the two
  looks at the local file and the metadata request only: the body is not requested. When
  the local copy is absent, the transfer meets no error and the remote declares the
  length of the body it serves, two calls in a row give one download and then one skip,
  and the files of the world are the same after both.
\<close>

theorem download_file_idempotent:
  "(files w p = Some xs \<and> http_head en url = Inr (Num (int (length xs))) \<longrightarrow>
      download_file en dl w url p
        = (True, dl\<lparr>skipped_count := skipped_count dl + 1\<rparr>,
           logger INFO (SkippingExists p) (emit (Head url) (emit (Stat p) (emit (Stat p) w)))))
   \<and> (files w p = None \<and> \<not> is_dir en p \<and> transfer_ok en url p \<and> http_get en url = Inr r
        \<and> http_head en url = Inr (Num (int (length (concat (chunks r))))) \<longrightarrow>
      (case download_file en dl w url p of (ok1, dl1, w1) \<Rightarrow>
         case download_file en dl1 w1 url p of (ok2, dl2, w2) \<Rightarrow>
           ok1 \<and> downloaded_count dl1 = downloaded_count dl + 1
           \<and> skipped_count dl1 = skipped_count dl \<and> failed_count dl1 = failed_count dl
           \<and> ok2 \<and> downloaded_count dl2 = downloaded_count dl1
           \<and> skipped_count dl2 = skipped_count dl1 + 1 \<and> failed_count dl2 = failed_count dl1
           \<and> files w1 p = Some (concat (chunks r)) \<and> files w2 = files w1
           \<and> trace w2 = trace w1 @ [Stat p, Stat p, Head url]))"
proof -
  have skip: "download_file en dl w url p
        = (True, dl\<lparr>skipped_count := skipped_count dl + 1\<rparr>,
           logger INFO (SkippingExists p) (emit (Head url) (emit (Stat p) (emit (Stat p) w))))"
    if h: "files w p = Some xs" "http_head en url = Inr (Num (int (length xs)))" for dl w xs
  proof -
    have "int_header (Num (int (length xs))) = Inr (int (length xs))" by (simp add: int_header_def)
    from already_complete_head[OF h(1) h(2) this] show ?thesis by (simp add: download_file_def)
  qed
  have twice: "case download_file en dl w url p of (ok1, dl1, w1) \<Rightarrow>
         case download_file en dl1 w1 url p of (ok2, dl2, w2) \<Rightarrow>
           ok1 \<and> downloaded_count dl1 = downloaded_count dl + 1
           \<and> skipped_count dl1 = skipped_count dl \<and> failed_count dl1 = failed_count dl
           \<and> ok2 \<and> downloaded_count dl2 = downloaded_count dl1
           \<and> skipped_count dl2 = skipped_count dl1 + 1 \<and> failed_count dl2 = failed_count dl1
           \<and> files w1 p = Some (concat (chunks r)) \<and> files w2 = files w1
           \<and> trace w2 = trace w1 @ [Stat p, Stat p, Head url]"
    if h: "files w p = None" "\<not> is_dir en p" "transfer_ok en url p" "http_get en url = Inr r"
      "http_head en url = Inr (Num (int (length (concat (chunks r)))))"
  proof -
    obtain ok1 dl1 w1 where r1: "download_file en dl w url p = (ok1, dl1, w1)"
      using prod_cases3 by blast
    note D = download_file_transfer[OF already_complete_absent[OF h(1) h(2)] r1]
    have ok1: "ok1" using D h(3) by simp
    have dl1: "dl1 = dl\<lparr>downloaded_count := downloaded_count dl + 1\<rparr>" using D ok1 by simp
    have f1: "files w1 p = Some (concat (chunks r))" using D ok1 h(4) by auto
    note S = skip[OF f1 h(5), of dl1]
    show ?thesis
      apply (simp add: r1 S)
      apply (simp add: ok1 dl1 f1 logger_def emit_def)
      done
  qed
  show ?thesis
  proof (intro conjI impI)
    assume "files w p = Some xs \<and> http_head en url = Inr (Num (int (length xs)))"
    then show "download_file en dl w url p
        = (True, dl\<lparr>skipped_count := skipped_count dl + 1\<rparr>,
           logger INFO (SkippingExists p) (emit (Head url) (emit (Stat p) (emit (Stat p) w))))"
      using skip by blast
  next
    assume a: "files w p = None \<and> \<not> is_dir en p \<and> transfer_ok en url p \<and> http_get en url = Inr r
        \<and> http_head en url = Inr (Num (int (length (concat (chunks r)))))"
    show "case download_file en dl w url p of (ok1, dl1, w1) \<Rightarrow>
         case download_file en dl1 w1 url p of (ok2, dl2, w2) \<Rightarrow>
           ok1 \<and> downloaded_count dl1 = downloaded_count dl + 1
           \<and> skipped_count dl1 = skipped_count dl \<and> failed_count dl1 = failed_count dl
           \<and> ok2 \<and> downloaded_count dl2 = downloaded_count dl1
           \<and> skipped_count dl2 = skipped_count dl1 + 1 \<and> failed_count dl2 = failed_count dl1
           \<and> files w1 p = Some (concat (chunks r)) \<and> files w2 = files w1
           \<and> trace w2 = trace w1 @ [Stat p, Stat p, Head url]"
      by (rule twice) (simp_all add: a)
  qed
qed



text \<open>
  A local copy of seven bytes against a remote that declares seven bytes is skipped; from
  an empty world the first call downloads the seven bytes and the second skips.
\<close>

theorem download_file_idempotent_witness:
  "download_file remote_env host_downloader sample_world ''https://host/a.bin'' ''d/a.bin''
     = (True, host_downloader\<lparr>skipped_count := 1\<rparr>,
        logger INFO (SkippingExists ''d/a.bin'')
          (emit (Head ''https://host/a.bin'') (emit (Stat ''d/a.bin'') (emit (Stat ''d/a.bin'') sample_world))))
   \<and> (case download_file remote_env host_downloader empty_world ''https://host/a.bin'' ''d/a.bin'' of
        (ok1, dl1, w1) \<Rightarrow>
          case download_file remote_env dl1 w1 ''https://host/a.bin'' ''d/a.bin'' of
            (ok2, dl2, w2) \<Rightarrow>
              ok1 \<and> ok2 \<and> downloaded_count dl2 = 1 \<and> skipped_count dl2 = 1 \<and> failed_count dl2 = 0
              \<and> files w1 ''d/a.bin'' = Some seven_bytes \<and> files w2 = files w1)"
proof -
  let ?u = "''https://host/a.bin''" and ?p = "''d/a.bin''"
  let ?r = "\<lparr>status = 200, content_length = Num 7,
             chunks = [[1, 2, 3, 4], [], [5, 6, 7 :: byte]], stream_fails = False\<rparr>"
  have f: "files sample_world ?p = Some seven_bytes" by (simp add: sample_world_def)
  have hd: "http_head remote_env ?u = Inr (Num (int (length seven_bytes)))"
    by (simp add: remote_env_def quiet_env_def seven_bytes_def)
  have e: "files empty_world ?p = None" by (simp add: empty_world_def)
  have nd: "\<not> is_dir remote_env ?p" by (simp add: remote_env_def quiet_env_def)
  have t: "transfer_ok remote_env ?u ?p" by code_simp
  have g: "http_get remote_env ?u = Inr ?r" by (simp add: remote_env_def quiet_env_def)
  have body: "concat (chunks ?r) = seven_bytes" by (simp add: seven_bytes_def)
  have hd': "http_head remote_env ?u = Inr (Num (int (length (concat (chunks ?r)))))"
    by (simp add: remote_env_def quiet_env_def)
  have c0: "downloaded_count host_downloader = 0" "skipped_count host_downloader = 0"
    "failed_count host_downloader = 0"
    by (simp_all add: host_downloader_def UbuntuPortsDownloader_init_def)
  note I1 = download_file_idempotent[where w = sample_world and p = ?p and xs = seven_bytes
      and en = remote_env and url = ?u and dl = host_downloader]
  note I2 = download_file_idempotent[where w = empty_world and p = ?p and en = remote_env and url = ?u
      and r = ?r and dl = host_downloader]
  from I1 f hd have a: "download_file remote_env host_downloader sample_world ?u ?p
     = (True, host_downloader\<lparr>skipped_count := 1\<rparr>,
        logger INFO (SkippingExists ?p) (emit (Head ?u) (emit (Stat ?p) (emit (Stat ?p) sample_world))))"
    by (simp add: c0)
  from I2 e nd t g hd' have b: "case download_file remote_env host_downloader empty_world ?u ?p of
        (ok1, dl1, w1) \<Rightarrow>
          case download_file remote_env dl1 w1 ?u ?p of
            (ok2, dl2, w2) \<Rightarrow>
              ok1 \<and> ok2 \<and> downloaded_count dl2 = 1 \<and> skipped_count dl2 = 1 \<and> failed_count dl2 = 0
              \<and> files w1 ?p = Some seven_bytes \<and> files w2 = files w1"
    by (auto simp: c0 seven_bytes_def split: prod.splits)
  from a b show ?thesis by blast
qed

section \<open>The depth cap of the crawl\<close>

lemma explore_depths_logger:
  "explore_depths (logger l m w)
     = explore_depths w @ (case m of Exploring d u \<Rightarrow> [d] | _ \<Rightarrow> [])"
  by (simp add: explore_depths_def logger_def)

lemma explore_depths_logged: "logged w' = logged w \<Longrightarrow> explore_depths w' = explore_depths w"
  by (simp add: explore_depths_def)

lemma logged_emit: "logged (emit e w) = logged w"
  by (simp add: emit_def)

lemma logged_file_write: "logged (snd (file_write en w q d)) = logged w"
  by (simp add: file_write_def emit_def split: write_outcome.splits)

lemma logged_already_complete: "logged (snd (already_complete en w url p)) = logged w"
  by (auto simp: already_complete_def os_path_exists_def os_path_getsize_def emit_def
      split: option.splits sum.splits bool.splits)

lemma logged_transfer: "logged (snd (transfer en w url p)) = logged w @ [(INFO, Downloading url)]"
proof -
  have fw: "logged w3 = logged w2" if "file_write en w2 q d = (r, w3)" for w2 w3 q d r
    using logged_file_write[of en w2 q d] that by simp
  show ?thesis
    by (auto simp: transfer_def Let_def os_makedirs_def emit_def logger_def
        split: sum.splits prod.splits dest: fw)
qed

lemma explore_depths_download_file:
  "explore_depths (snd (snd (download_file en dl w url p))) = explore_depths w"
proof -
  obtain r w1 where a: "already_complete en w url p = (r, w1)"
    by (cases "already_complete en w url p")
  have l1: "logged w1 = logged w" using logged_already_complete[of en w url p] a by simp
  obtain r2 w2 where t: "transfer en w1 url p = (r2, w2)" by (cases "transfer en w1 url p")
  have l2: "logged w2 = logged w @ [(INFO, Downloading url)]"
    using logged_transfer[of en w1 url p] t l1 by simp
  have e1: "explore_depths w1 = explore_depths w" by (rule explore_depths_logged[OF l1])
  have e2: "explore_depths w2 = explore_depths w" using l2 by (simp add: explore_depths_def)
  show ?thesis
    by (simp add: download_file_def a t explore_depths_logger e1 e2 split: sum.splits bool.splits)
qed

lemma explore_depths_listing:
  "explore_depths (snd (get_directory_listing en w url)) = explore_depths w"
  by (simp add: get_directory_listing_def explore_depths_logger
      explore_depths_logged[OF logged_emit] split: sum.splits)

lemma crawl_depths:
  "set (explore_depths (snd (crawl_and_download en url depth st)))
     \<subseteq> set (explore_depths (snd st)) \<union> {..20}"
  "set (explore_depths (snd (crawl_links en url depth links st)))
     \<subseteq> set (explore_depths (snd st)) \<union> {..20}"
proof (induction en url depth st and en url depth links st
    rule: crawl_and_download_crawl_links.induct)
  case (1 en url depth dl w)
  show ?case
  proof (cases "depth > 20")
    case True
    then show ?thesis by (simp add: explore_depths_logger)
  next
    case False
    let ?r = "get_directory_listing en (logger INFO (Exploring depth url) w) url"
    have e: "explore_depths (snd ?r) = explore_depths w @ [depth]"
      by (simp add: explore_depths_listing explore_depths_logger)
    show ?thesis
    proof (cases "fst ?r = []")
      case True
      with False e show ?thesis by (simp add: Let_def explore_depths_logger)
    next
      case ne: False
      from "1.IH"[OF False refl ne] e False ne show ?thesis
        by (auto simp: Let_def)
    qed
  qed
next
  case (2 en url depth dl w)
  show ?case by simp
next
  case (3 en url depth link rest dl w)
  let ?full = "urljoin en (url @ ''/'') link"
  show ?case
  proof (cases "is_directory link")
    case True
    show ?thesis
    proof (cases "depth = 0 \<and> \<not> should_process_directory dl link")
      case skip: True
      from "3.IH"(1)[OF refl True skip] True skip show ?thesis
        by (simp add: explore_depths_logger)
    next
      case go: False
      from "3.IH"(2)[OF refl True go] "3.IH"(3)[OF refl True go] True go show ?thesis
        by (cases "crawl_and_download en ?full (depth + 1) (dl, w)") (auto simp: Let_def)
    qed
  next
    case False
    let ?r = "download_file en dl w ?full (get_local_path dl ?full)"
    from "3.IH"(4)[OF refl False refl] False
      explore_depths_download_file[of en dl w ?full "get_local_path dl ?full"]
    show ?thesis by (simp add: Let_def)
  qed
qed

lemma crawl_terminates: "crawl_and_download_crawl_links_dom x"
proof -
  have "All crawl_and_download_crawl_links_dom"
    by (rule "crawl_and_download_crawl_links.termination"
          [where R = "inv_image (less_than <*lex*> less_than)
             (\<lambda>x. case x of
                Inl (en, url, depth, st) \<Rightarrow> (2 * (21 - depth), 0)
              | Inr (en, url, depth, links, st) \<Rightarrow> (2 * (20 - depth) + 1, length links))"])
       auto
  then show ?thesis by simp
qed

text \<open>
  Claim C7. The recursion of \<open>crawl_and_download\<close> is well-founded on every argument, so
  every call returns, whatever the listings link to. Above depth 20 a call only logs the
  warning and returns: it requests nothing and descends no further. And every listing a
  crawl explores is explored at a depth of at most 20.
\<close>

theorem crawl_and_download_depth_cap:
  "crawl_and_download_crawl_links_dom (Inl (en, url, depth, dl, w))
   \<and> (20 < depth \<longrightarrow>
      crawl_and_download en url depth (dl, w) = (dl, logger WARNING (MaximumDepthReached url) w))
   \<and> (\<forall>d \<in> set (explore_depths (snd (crawl_and_download en url depth (dl, w)))).
         d \<le> 20 \<or> d \<in> set (explore_depths w))"
  using crawl_depths(1)[of en url depth "(dl, w)"] crawl_terminates by auto

text \<open>
  A remote on which every listing links to itself: the crawl from depth 0 explores the
  depths 0 to 20 once each and returns; a call at depth 21 returns at once.
\<close>

theorem crawl_and_download_depth_cap_witness:
  "crawl_and_download cyclic_env ''http://h/a'' 21 (host_downloader, empty_world)
     = (host_downloader, logger WARNING (MaximumDepthReached ''http://h/a'') empty_world)
   \<and> explore_depths (snd (crawl_and_download cyclic_env ''http://h/a'' 0
         (host_downloader, empty_world))) = [0..<21]
   \<and> (20::nat) \<in> set (explore_depths (snd (crawl_and_download cyclic_env ''http://h/a'' 0
         (host_downloader, empty_world))))
   \<and> explore_depths empty_world = []"
proof -
  have a: "explore_depths (snd (crawl_and_download cyclic_env ''http://h/a'' 0
         (host_downloader, empty_world))) = [0..<21]"
    by code_simp
  have b: "explore_depths empty_world = []" by (simp add: explore_depths_def empty_world_def)
  have c: "(20::nat) < 21" by simp
  from crawl_and_download_depth_cap[where depth = 21 and en = cyclic_env and url = "''http://h/a''"
      and dl = host_downloader and w = empty_world] c
  have d: "crawl_and_download cyclic_env ''http://h/a'' 21 (host_downloader, empty_world)
     = (host_downloader, logger WARNING (MaximumDepthReached ''http://h/a'') empty_world)"
    by blast
  from crawl_and_download_depth_cap[where depth = 0 and en = cyclic_env and url = "''http://h/a''"
      and dl = host_downloader and w = empty_world]
  have "\<forall>d \<in> set (explore_depths (snd (crawl_and_download cyclic_env ''http://h/a'' 0
         (host_downloader, empty_world)))). d \<le> 20 \<or> d \<in> set (explore_depths empty_world)"
    by blast
  with a b d show ?thesis by simp
qed

end
